theory Spec2Isabelle
  imports
    Main
    "HOL-Library.Char_ord"
    "HOL-Library.List_Lexorder"
    "HOL-Library.Product_Lexorder"
    "HOL-Library.Option_ord"
    "HOL-Library.AList"
begin

section \<open>The service-calendar resolution engine of gtfs\_json\_builder.py\<close>

text \<open>
  The development embeds the core functions of \<^verbatim>\<open>src/scripts/gtfs_json_builder.py\<close>:
  the activation model \<^verbatim>\<open>_active_services_on\<close>, the window scanner
  \<^verbatim>\<open>_effective_windows\<close>, the expansion \<^verbatim>\<open>_active_dates_for_service\<close>, the resolver
  \<^verbatim>\<open>_choose_service_winner_factual\<close>, the grouper \<^verbatim>\<open>_build_route_grouping\<close> and the
  orchestrator \<^verbatim>\<open>_prune_overlaps_factual\<close>.

  Conventions of the embedding.
  \<^item> A CSV row (a Python \<^verbatim>\<open>dict\<close> from \<^verbatim>\<open>csv.DictReader\<close>) is a map from column names to
    string cells. \<^verbatim>\<open>row.get(k, d)\<close> is \<open>get_default\<close>, \<^verbatim>\<open>row.get(k)\<close> is the map itself and
    the subscript \<^verbatim>\<open>row[k]\<close> raises \<open>KeyError\<close> on a missing column.
  \<^item> A dictionary whose iteration order the code relies on is an association list that
    is updated in place (\<open>AList.update\<close>), which is the insertion order of a Python dict.
  \<^item> A \<^verbatim>\<open>datetime.date\<close> is its proleptic Gregorian ordinal (\<^verbatim>\<open>date.toordinal()\<close>), an integer
    between 1 (0001-01-01) and 3652059 (9999-12-31). Adding a \<^verbatim>\<open>timedelta\<close> that leaves this
    range raises \<open>OverflowError\<close>.
  \<^item> Exceptions are values: every function that can raise returns \<open>error + 'a\<close>.
  \<^item> Two library functions are parameters of the model: \<open>pyint\<close> stands for the builtin
    \<^verbatim>\<open>int(s)\<close> on a string (\<open>None\<close> where it raises \<^verbatim>\<open>ValueError\<close>), and \<open>sha\<close> for the
    integer read from the first eight hex digits of the SHA-1 digest of a byte string.
    Every theorem holds for all such functions.
  \<^item> Printing to the console has no effect on any result and is left out.
\<close>

subsection \<open>Errors, rows and strings\<close>

datatype error = KeyError | OverflowError | IndexError

type_synonym row = "string \<rightharpoonup> string"

definition get_default :: "row \<Rightarrow> string \<Rightarrow> string \<Rightarrow> string" where
  "get_default r k d = (case r k of None \<Rightarrow> d | Some v \<Rightarrow> v)"

definition lookup_default :: "('k \<times> 'v) list \<Rightarrow> 'k \<Rightarrow> 'v \<Rightarrow> 'v" where
  "lookup_default al k d = (case map_of al k of None \<Rightarrow> d | Some v \<Rightarrow> v)"

fun map_e :: "('a \<Rightarrow> error + 'b) \<Rightarrow> 'a list \<Rightarrow> error + 'b list" where
  "map_e f [] = Inr []"
| "map_e f (x # xs) =
     (case f x of Inl e \<Rightarrow> Inl e
      | Inr y \<Rightarrow> (case map_e f xs of Inl e \<Rightarrow> Inl e | Inr ys \<Rightarrow> Inr (y # ys)))"

fun filter_e :: "('a \<Rightarrow> error + bool) \<Rightarrow> 'a list \<Rightarrow> error + 'a list" where
  "filter_e p [] = Inr []"
| "filter_e p (x # xs) =
     (case p x of Inl e \<Rightarrow> Inl e
      | Inr b \<Rightarrow> (case filter_e p xs of Inl e \<Rightarrow> Inl e
                  | Inr ys \<Rightarrow> Inr (if b then x # ys else ys)))"

text \<open>\<^verbatim>\<open>sep.join(xs)\<close>.\<close>

fun join :: "string \<Rightarrow> string list \<Rightarrow> string" where
  "join sep [] = []"
| "join sep [x] = x"
| "join sep (x # y # ys) = x @ sep @ join sep (y # ys)"

text \<open>Decimal rendering of integers, as an f-string prints them.\<close>

definition digit_char :: "nat \<Rightarrow> char" where
  "digit_char n = ''0123456789'' ! (n mod 10)"

function show_nat :: "nat \<Rightarrow> string" where
  "show_nat n = (if n < 10 then [digit_char n] else show_nat (n div 10) @ [digit_char n])"
  by pat_completeness auto
termination
  by (relation "measure id") auto

definition show_int :: "int \<Rightarrow> string" where
  "show_int i = (if i < 0 then CHR ''-'' # show_nat (nat (- i)) else show_nat (nat i))"

definition zfill :: "nat \<Rightarrow> string \<Rightarrow> string" where
  "zfill w s = replicate (w - length s) CHR ''0'' @ s"

subsection \<open>Dates\<close>

type_synonym date = int

definition MAXORDINAL :: int where
  "MAXORDINAL = 3652059"

definition is_date :: "date \<Rightarrow> bool" where
  "is_date d = (1 \<le> d \<and> d \<le> MAXORDINAL)"

definition is_leap :: "int \<Rightarrow> bool" where
  "is_leap y = (y mod 4 = 0 \<and> (y mod 100 \<noteq> 0 \<or> y mod 400 = 0))"

definition days_in_month :: "int \<Rightarrow> int \<Rightarrow> int" where
  "days_in_month y m =
     (if m = 2 then (if is_leap y then 29 else 28)
      else if m = 4 \<or> m = 6 \<or> m = 9 \<or> m = 11 then 30 else 31)"

definition days_before_year :: "int \<Rightarrow> int" where
  "days_before_year y = (y - 1) * 365 + (y - 1) div 4 - (y - 1) div 100 + (y - 1) div 400"

definition days_before_month :: "int \<Rightarrow> int \<Rightarrow> int" where
  "days_before_month y m = sum_list (map (days_in_month y) [1..m - 1])"

definition ymd2ord :: "int \<Rightarrow> int \<Rightarrow> int \<Rightarrow> date" where
  "ymd2ord y m d = days_before_year y + days_before_month y m + d"

text \<open>The constructor \<^verbatim>\<open>date(y, m, d)\<close>; \<open>None\<close> where it raises \<^verbatim>\<open>ValueError\<close>.\<close>

definition date_of_ymd :: "int \<Rightarrow> int \<Rightarrow> int \<Rightarrow> date option" where
  "date_of_ymd y m d =
     (if 1 \<le> y \<and> y \<le> 9999 \<and> 1 \<le> m \<and> m \<le> 12 \<and> 1 \<le> d \<and> d \<le> days_in_month y m
      then Some (ymd2ord y m d) else None)"

text \<open>The inverse of \<open>ymd2ord\<close>, following \<^verbatim>\<open>_ord2ymd\<close> of the datetime module.\<close>

definition ord2ymd :: "date \<Rightarrow> int \<times> int \<times> int" where
  "ord2ymd ord =
     (let n = ord - 1;
          n400 = n div 146097; r400 = n mod 146097;
          n100 = r400 div 36524; r100 = r400 mod 36524;
          n4 = r100 div 1461; r4 = r100 mod 1461;
          n1 = r4 div 365; r1 = r4 mod 365;
          year = n400 * 400 + 1 + n100 * 100 + n4 * 4 + n1
      in if n1 = 4 \<or> n100 = 4 then (year - 1, 12, 31)
         else
           (let month = (r1 + 50) div 32;
                preceding = days_before_month year month
            in if preceding > r1
               then (year, month - 1, r1 - days_before_month year (month - 1) + 1)
               else (year, month, r1 - preceding + 1)))"

text \<open>\<^verbatim>\<open>d + timedelta(days=n)\<close>.\<close>

definition add_days :: "date \<Rightarrow> int \<Rightarrow> error + date" where
  "add_days d n = (if 1 \<le> d + n \<and> d + n \<le> MAXORDINAL then Inr (d + n) else Inl OverflowError)"

text \<open>\<^verbatim>\<open>d.weekday()\<close>: Monday is 0 and Sunday is 6; ordinal 1 is a Monday.\<close>

definition weekday :: "date \<Rightarrow> nat" where
  "weekday d = nat ((d + 6) mod 7)"

text \<open>
  The formats \<^verbatim>\<open>%Y%m%d\<close> and \<^verbatim>\<open>%Y-%m-%d\<close> of \<^verbatim>\<open>date.__format__\<close>, which hands the
  format to the C library. There \<^verbatim>\<open>%Y\<close> is the year as a decimal number without padding,
  while \<^verbatim>\<open>%m\<close> and \<^verbatim>\<open>%d\<close> have two digits: 999-12-31 is rendered as \<^verbatim>\<open>9991231\<close> and as
  \<^verbatim>\<open>999-12-31\<close>.
\<close>

definition date_to_yyyymmdd :: "date \<Rightarrow> string" where
  "date_to_yyyymmdd d =
     (case ord2ymd d of (y, m, dd) \<Rightarrow>
        show_nat (nat y) @ zfill 2 (show_nat (nat m)) @ zfill 2 (show_nat (nat dd)))"

definition format_ymd :: "date \<Rightarrow> string" where
  "format_ymd d =
     (case ord2ymd d of (y, m, dd) \<Rightarrow>
        show_nat (nat y) @ ''-'' @ zfill 2 (show_nat (nat m)) @ ''-'' @
        zfill 2 (show_nat (nat dd)))"

definition yyyymmdd_to_date :: "(string \<Rightarrow> int option) \<Rightarrow> string \<Rightarrow> date option" where
  "yyyymmdd_to_date pyint s =
     (if s = [] \<or> length s \<noteq> 8 then None
      else (case (pyint (take 4 s), pyint (take 2 (drop 4 s)), pyint (take 2 (drop 6 s))) of
              (Some y, Some m, Some d) \<Rightarrow> date_of_ymd y m d
            | _ \<Rightarrow> None))"

definition parse_ymd :: "(string \<Rightarrow> int option) \<Rightarrow> string \<Rightarrow> date option" where
  "parse_ymd pyint s = yyyymmdd_to_date pyint s"

subsection \<open>The calendar activation model\<close>

definition week_days :: "string list" where
  "week_days =
     [''monday'', ''tuesday'', ''wednesday'', ''thursday'', ''friday'', ''saturday'', ''sunday'']"

definition weekday_mask :: "row \<Rightarrow> bool list" where
  "weekday_mask cal_row = map (\<lambda>day. get_default cal_row day ''0'' = ''1'') week_days"

text \<open>The first loop of \<^verbatim>\<open>_active_services_on\<close>, over the calendar rows.\<close>

fun calendar_scan ::
  "(string \<Rightarrow> int option) \<Rightarrow> date \<Rightarrow> row list \<Rightarrow> string set \<Rightarrow> error + string set" where
  "calendar_scan pyint D [] active = Inr active"
| "calendar_scan pyint D (row # rows) active =
     (case (yyyymmdd_to_date pyint (get_default row ''start_date'' ''''),
            yyyymmdd_to_date pyint (get_default row ''end_date'' '''')) of
        (Some start, Some fin) \<Rightarrow>
          if start \<le> D \<and> D \<le> fin \<and> weekday_mask row ! weekday D
          then (case row ''service_id'' of
                  None \<Rightarrow> Inl KeyError
                | Some sid \<Rightarrow> calendar_scan pyint D rows (insert sid active))
          else calendar_scan pyint D rows active
      | _ \<Rightarrow> calendar_scan pyint D rows active)"

text \<open>The second loop, over the exception rows; \<open>key\<close> is the queried date as a string.\<close>

fun exception_scan :: "string \<Rightarrow> row list \<Rightarrow> string set \<Rightarrow> string set" where
  "exception_scan key [] active = active"
| "exception_scan key (exc # excs) active =
     (if exc ''date'' = Some key
      then (let sid = get_default exc ''service_id'' '''';
                t = get_default exc ''exception_type'' ''''
            in if t = ''1'' then exception_scan key excs (insert sid active)
               else if t = ''2'' then exception_scan key excs (active - {sid})
               else exception_scan key excs active)
      else exception_scan key excs active)"

definition active_services_on ::
  "(string \<Rightarrow> int option) \<Rightarrow> date \<Rightarrow> row list \<Rightarrow> row list \<Rightarrow> error + string set" where
  "active_services_on pyint D calendar_rows calendar_dates_rows =
     (case calendar_scan pyint D calendar_rows {} of
        Inl e \<Rightarrow> Inl e
      | Inr active \<Rightarrow> Inr (exception_scan (date_to_yyyymmdd D) calendar_dates_rows active))"

subsection \<open>The change-point window scanner\<close>

text \<open>The local function \<^verbatim>\<open>sig\<close>: the cardinality and a hash of the sorted identifiers.\<close>

definition sig :: "(string \<Rightarrow> nat) \<Rightarrow> string set \<Rightarrow> nat \<times> nat" where
  "sig sha sids =
     (if sids = {} then (0, 0) else (card sids, sha (join ''|'' (sorted_list_of_set sids))))"

text \<open>
  The loop \<^verbatim>\<open>for i in range(1, days+1)\<close>. Its state is \<^verbatim>\<open>(cur_from, cur_sig, wins)\<close>;
  \<^verbatim>\<open>cur_set\<close> is assigned and never read again, so the state leaves it out.
\<close>

fun window_scan ::
  "(string \<Rightarrow> int option) \<Rightarrow> (string \<Rightarrow> nat) \<Rightarrow> date \<Rightarrow> row list \<Rightarrow> row list \<Rightarrow> int list \<Rightarrow>
   date \<times> (nat \<times> nat) \<times> (date \<times> date) list \<Rightarrow>
   error + (date \<times> (nat \<times> nat) \<times> (date \<times> date) list)" where
  "window_scan pyint sha start cal cd [] st = Inr st"
| "window_scan pyint sha start cal cd (i # rest) (cur_from, cur_sig, wins) =
     (case add_days start i of
        Inl e \<Rightarrow> Inl e
      | Inr d \<Rightarrow>
          (case active_services_on pyint d cal cd of
             Inl e \<Rightarrow> Inl e
           | Inr s \<Rightarrow>
               if sig sha s \<noteq> cur_sig
               then (case add_days d (- 1) of
                       Inl e \<Rightarrow> Inl e
                     | Inr prev \<Rightarrow>
                         window_scan pyint sha start cal cd rest
                           (d, sig sha s, wins @ [(cur_from, prev)]))
               else window_scan pyint sha start cal cd rest (cur_from, cur_sig, wins)))"

definition effective_windows ::
  "(string \<Rightarrow> int option) \<Rightarrow> (string \<Rightarrow> nat) \<Rightarrow> date \<Rightarrow> int \<Rightarrow> row list \<Rightarrow> row list \<Rightarrow>
   error + (date \<times> date) list" where
  "effective_windows pyint sha start days cal cd =
     (if days \<le> 0 then Inr []
      else (case active_services_on pyint start cal cd of
              Inl e \<Rightarrow> Inl e
            | Inr cur_set \<Rightarrow>
                (case window_scan pyint sha start cal cd [1..days] (start, sig sha cur_set, []) of
                   Inl e \<Rightarrow> Inl e
                 | Inr (cur_from, cur_sig, wins) \<Rightarrow>
                     (case add_days start days of
                        Inl e \<Rightarrow> Inl e
                      | Inr last_day \<Rightarrow> Inr (wins @ [(cur_from, last_day)])))))"

subsection \<open>Active dates of one service\<close>

text \<open>
  The \<^verbatim>\<open>while cur <= end\<close> loop of \<^verbatim>\<open>_active_dates_for_service\<close>. The increment
  \<^verbatim>\<open>cur += timedelta(days=1)\<close> runs after the last day too, so it raises \<open>OverflowError\<close>
  when \<^verbatim>\<open>end\<close> is 9999-12-31.
\<close>

function expand_calendar :: "bool list \<Rightarrow> date \<Rightarrow> date \<Rightarrow> date set \<Rightarrow> error + date set" where
  "expand_calendar wmask cur fin active =
     (if cur \<le> fin
      then (case add_days cur 1 of
              Inl e \<Rightarrow> Inl e
            | Inr nxt \<Rightarrow>
                expand_calendar wmask nxt fin
                  (if wmask ! weekday cur then insert cur active else active))
      else Inr active)"
  by pat_completeness auto
termination
  by (relation "measure (\<lambda>(wmask, cur, fin, active). nat (fin - cur + 1))")
     (auto simp: add_days_def split: if_splits)

text \<open>The loop over the exception rows of \<^verbatim>\<open>_active_dates_for_service\<close>.\<close>

fun apply_exceptions ::
  "(string \<Rightarrow> int option) \<Rightarrow> string \<Rightarrow> row list \<Rightarrow> date set \<Rightarrow> date set" where
  "apply_exceptions pyint service_id [] active = active"
| "apply_exceptions pyint service_id (exc # excs) active =
     (if exc ''service_id'' = Some service_id
      then (case parse_ymd pyint (get_default exc ''date'' '''') of
              None \<Rightarrow> apply_exceptions pyint service_id excs active
            | Some d \<Rightarrow>
                (let t = get_default exc ''exception_type'' ''''
                 in if t = ''1'' then apply_exceptions pyint service_id excs (insert d active)
                    else if t = ''2'' then apply_exceptions pyint service_id excs (active - {d})
                    else apply_exceptions pyint service_id excs active))
      else apply_exceptions pyint service_id excs active)"

definition active_dates_for_service ::
  "(string \<Rightarrow> int option) \<Rightarrow> string \<Rightarrow> row \<Rightarrow> row list \<Rightarrow> error + date set" where
  "active_dates_for_service pyint service_id calendar exceptions =
     (case (case (parse_ymd pyint (get_default calendar ''start_date'' ''''),
                  parse_ymd pyint (get_default calendar ''end_date'' '''')) of
              (Some start, Some fin) \<Rightarrow> expand_calendar (weekday_mask calendar) start fin {}
            | _ \<Rightarrow> Inr {}) of
        Inl e \<Rightarrow> Inl e
      | Inr active \<Rightarrow> Inr (apply_exceptions pyint service_id exceptions active))"

subsection \<open>The ambiguity resolver\<close>

record metrics =
  active_dates :: "date set"
  start_date :: "date option"
  last_active_date :: "date option"
  active_after_pivot :: nat

text \<open>
  The body of the loop that fills \<^verbatim>\<open>metrics\<close>: \<open>row_metrics\<close> is the entry computed from
  the calendar row \<^verbatim>\<open>cal\<close>, and \<open>service_metrics\<close> reads \<^verbatim>\<open>cal\<close> from \<^verbatim>\<open>calendars\<close> first.
\<close>

definition row_metrics ::
  "(string \<Rightarrow> int option) \<Rightarrow> string \<Rightarrow> row \<Rightarrow> row list \<Rightarrow> date \<Rightarrow> error + metrics" where
  "row_metrics pyint svc_id cal calendar_dates pivot =
     (let exceptions = filter (\<lambda>exc. exc ''service_id'' = Some svc_id) calendar_dates
      in case active_dates_for_service pyint svc_id cal exceptions of
           Inl e \<Rightarrow> Inl e
         | Inr active \<Rightarrow>
             Inr \<lparr>active_dates = active,
                  start_date = parse_ymd pyint (get_default cal ''start_date'' ''''),
                  last_active_date = (if active = {} then None else Some (Max active)),
                  active_after_pivot = card (Set.filter (\<lambda>d. pivot \<le> d) active)\<rparr>)"

definition service_metrics ::
  "(string \<Rightarrow> int option) \<Rightarrow> string \<Rightarrow> (string \<times> row) list \<Rightarrow> row list \<Rightarrow> date \<Rightarrow> error + metrics" where
  "service_metrics pyint svc_id calendars calendar_dates pivot =
     row_metrics pyint svc_id (lookup_default calendars svc_id Map.empty) calendar_dates pivot"

text \<open>The loop itself; the dictionary \<^verbatim>\<open>metrics\<close> is keyed by service id.\<close>

fun build_metrics ::
  "(string \<Rightarrow> int option) \<Rightarrow> string list \<Rightarrow> (string \<times> row) list \<Rightarrow> row list \<Rightarrow> date \<Rightarrow>
   (string \<times> metrics) list \<Rightarrow> error + (string \<times> metrics) list" where
  "build_metrics pyint [] calendars calendar_dates pivot acc = Inr acc"
| "build_metrics pyint (svc_id # rest) calendars calendar_dates pivot acc =
     (case service_metrics pyint svc_id calendars calendar_dates pivot of
        Inl e \<Rightarrow> Inl e
      | Inr m \<Rightarrow>
          build_metrics pyint rest calendars calendar_dates pivot (AList.update svc_id m acc))"

text \<open>The subscript \<^verbatim>\<open>metrics[s][field]\<close>.\<close>

definition metric_of :: "(string \<times> metrics) list \<Rightarrow> (metrics \<Rightarrow> 'a) \<Rightarrow> string \<Rightarrow> error + 'a" where
  "metric_of ms field s = (case map_of ms s of None \<Rightarrow> Inl KeyError | Some m \<Rightarrow> Inr (field m))"

text \<open>The nested loops that compute \<^verbatim>\<open>max_overlap\<close> over the pairs \<^verbatim>\<open>(a, b)\<close>, \<^verbatim>\<open>b\<close> after \<^verbatim>\<open>a\<close>.\<close>

fun overlap_inner :: "date set \<Rightarrow> (string \<times> metrics) list \<Rightarrow> string list \<Rightarrow> nat \<Rightarrow> error + nat" where
  "overlap_inner A ms [] max_overlap = Inr max_overlap"
| "overlap_inner A ms (b # bs) max_overlap =
     (case metric_of ms active_dates b of
        Inl e \<Rightarrow> Inl e
      | Inr B \<Rightarrow>
          (let ov = card (A \<inter> B)
           in overlap_inner A ms bs (if ov > max_overlap then ov else max_overlap)))"

fun overlap_outer :: "(string \<times> metrics) list \<Rightarrow> string list \<Rightarrow> nat \<Rightarrow> error + nat" where
  "overlap_outer ms [] max_overlap = Inr max_overlap"
| "overlap_outer ms (a # rest) max_overlap =
     (case metric_of ms active_dates a of
        Inl e \<Rightarrow> Inl e
      | Inr A \<Rightarrow>
          (case overlap_inner A ms rest max_overlap of
             Inl e \<Rightarrow> Inl e
           | Inr mx \<Rightarrow> overlap_outer ms rest mx))"

text \<open>\<^verbatim>\<open>max(xs) if xs else None\<close>.\<close>

definition max_opt :: "'a::linorder list \<Rightarrow> 'a option" where
  "max_opt xs = (if xs = [] then None else Some (Max (set xs)))"

text \<open>
  A stage of the elimination chain either returns the winner with the reasons, or
  continues with the narrowed candidates and the reasons so far.
\<close>

datatype stage = Return string "string list" | Continue "string list" "string list"

text \<open>The comprehension \<^verbatim>\<open>[s for s in candidates if metrics[s][field] == v]\<close>.\<close>

definition keep_equal ::
  "(string \<times> metrics) list \<Rightarrow> (metrics \<Rightarrow> 'a) \<Rightarrow> 'a \<Rightarrow> string list \<Rightarrow> error + string list" where
  "keep_equal ms field v candidates =
     filter_e (\<lambda>s. case metric_of ms field s of Inl e \<Rightarrow> Inl e | Inr x \<Rightarrow> Inr (x = v)) candidates"

definition by_last_active ::
  "(string \<times> metrics) list \<Rightarrow> string list \<Rightarrow> string list \<Rightarrow> error + stage" where
  "by_last_active ms candidates reasons =
     (case max_opt (List.map_filter (\<lambda>km. last_active_date (snd km)) ms) of
        None \<Rightarrow> Inr (Continue candidates reasons)
      | Some max_last \<Rightarrow>
          (case keep_equal ms last_active_date (Some max_last) candidates of
             Inl e \<Rightarrow> Inl e
           | Inr [w] \<Rightarrow> Inr (Return w (reasons @ [''Latest last_active_date: '' @ format_ymd max_last]))
           | Inr cands \<Rightarrow>
               Inr (Continue cands (reasons @ [''Tied on last_active_date: '' @ format_ymd max_last]))))"

definition by_active_after_pivot ::
  "(string \<times> metrics) list \<Rightarrow> string list \<Rightarrow> string list \<Rightarrow> error + stage" where
  "by_active_after_pivot ms candidates reasons =
     (if candidates = [] then Inr (Continue candidates reasons)
      else (case map_e (metric_of ms active_after_pivot) candidates of
              Inl e \<Rightarrow> Inl e
            | Inr counts \<Rightarrow>
                (let max_after = Max (set counts)
                 in case keep_equal ms active_after_pivot max_after candidates of
                      Inl e \<Rightarrow> Inl e
                    | Inr [w] \<Rightarrow>
                        Inr (Return w (reasons @
                          [''Most active days after pivot ('' @ show_nat max_after @ '' days)'']))
                    | Inr cands \<Rightarrow>
                        Inr (Continue cands
                          (if max_after > 0
                           then reasons @ [''Tied on active days after pivot: '' @ show_nat max_after]
                           else reasons)))))"

definition by_start_date ::
  "(string \<times> metrics) list \<Rightarrow> string list \<Rightarrow> string list \<Rightarrow> error + stage" where
  "by_start_date ms candidates reasons =
     (case map_e (metric_of ms start_date) candidates of
        Inl e \<Rightarrow> Inl e
      | Inr starts \<Rightarrow>
          (case max_opt (List.map_filter id starts) of
             None \<Rightarrow> Inr (Continue candidates reasons)
           | Some max_start \<Rightarrow>
               (case keep_equal ms start_date (Some max_start) candidates of
                  Inl e \<Rightarrow> Inl e
                | Inr [w] \<Rightarrow> Inr (Return w (reasons @ [''Latest start_date: '' @ format_ymd max_start]))
                | Inr cands \<Rightarrow>
                    Inr (Continue cands (reasons @ [''Tied on start_date: '' @ format_ymd max_start])))))"

text \<open>
  The final tiebreak. The \<^verbatim>\<open>try\<close> block fails when some id does not parse
  (\<^verbatim>\<open>ValueError\<close>) or when the list is empty (\<^verbatim>\<open>IndexError\<close> at \<^verbatim>\<open>c_int[0]\<close>); the handler
  then sorts the ids as strings, and its \<^verbatim>\<open>candidates[0]\<close> raises on an empty list.
  The first element of a list sorted with \<^verbatim>\<open>reverse=True\<close> is the head of the reversed
  sorted list.
\<close>

definition by_service_id ::
  "(string \<Rightarrow> int option) \<Rightarrow> string list \<Rightarrow> string list \<Rightarrow> error + string \<times> string list" where
  "by_service_id pyint candidates reasons =
     (case (case those (map pyint candidates) of
              None \<Rightarrow> None
            | Some ints \<Rightarrow>
                (case rev (sort (zip ints candidates)) of [] \<Rightarrow> None | c # _ \<Rightarrow> Some (snd c))) of
        Some w \<Rightarrow> Inr (w, reasons @ [''Tiebreaker: highest service_id ('' @ w @ '')''])
      | None \<Rightarrow>
          (case rev (sort candidates) of
             [] \<Rightarrow> Inl IndexError
           | w # _ \<Rightarrow>
               Inr (w, reasons @ [''Tiebreaker: lexicographically highest service_id ('' @ w @ '')''])))"

definition elimination_chain ::
  "(string \<Rightarrow> int option) \<Rightarrow> (string \<times> metrics) list \<Rightarrow> string list \<Rightarrow>
   error + string option \<times> string list \<times> bool" where
  "elimination_chain pyint ms services =
     (case by_last_active ms services [] of
        Inl e \<Rightarrow> Inl e
      | Inr (Return w rs) \<Rightarrow> Inr (Some w, rs, False)
      | Inr (Continue c1 r1) \<Rightarrow>
          (case by_active_after_pivot ms c1 r1 of
             Inl e \<Rightarrow> Inl e
           | Inr (Return w rs) \<Rightarrow> Inr (Some w, rs, False)
           | Inr (Continue c2 r2) \<Rightarrow>
               (case by_start_date ms c2 r2 of
                  Inl e \<Rightarrow> Inl e
                | Inr (Return w rs) \<Rightarrow> Inr (Some w, rs, False)
                | Inr (Continue c3 r3) \<Rightarrow>
                    (case by_service_id pyint c3 r3 of
                       Inl e \<Rightarrow> Inl e
                     | Inr (w, rs) \<Rightarrow> Inr (Some w, rs, False)))))"

definition choose_service_winner_factual ::
  "(string \<Rightarrow> int option) \<Rightarrow> string list \<Rightarrow> (string \<times> row) list \<Rightarrow> row list \<Rightarrow> date \<Rightarrow> int \<Rightarrow>
   error + string option \<times> string list \<times> bool" where
  "choose_service_winner_factual pyint services calendars calendar_dates pivot overlap_max_days =
     (if length services \<le> 1
      then Inr ((case services of [] \<Rightarrow> None | s # _ \<Rightarrow> Some s),
                [''Only one service in group''], False)
      else (case build_metrics pyint services calendars calendar_dates pivot [] of
              Inl e \<Rightarrow> Inl e
            | Inr ms \<Rightarrow>
                (case overlap_outer ms services 0 of
                   Inl e \<Rightarrow> Inl e
                 | Inr max_overlap \<Rightarrow>
                     if int max_overlap > overlap_max_days
                     then Inr (None,
                               [''Ambiguous: services overlap by '' @ show_nat max_overlap @
                                '' days (> '' @ show_int overlap_max_days @ '')''],
                               True)
                     else elimination_chain pyint ms services)))"

subsection \<open>The route-aware equivalence grouper\<close>

definition UNKNOWN_ROUTE_ID :: string where
  "UNKNOWN_ROUTE_ID = ''<unknown-route>''"

type_synonym group_key = "bool list \<times> string list"

text \<open>
  The first loop of \<^verbatim>\<open>_build_route_grouping\<close>. \<^verbatim>\<open>service_routes\<close> is a
  \<^verbatim>\<open>defaultdict(set)\<close>: the subscript creates the empty set for a new key. A missing and
  an empty cell are both false in \<^verbatim>\<open>if not service_id\<close> and in \<^verbatim>\<open>... or UNKNOWN_ROUTE_ID\<close>.
\<close>

fun collect_routes :: "row list \<Rightarrow> (string \<times> string set) list \<Rightarrow> (string \<times> string set) list" where
  "collect_routes [] service_routes = service_routes"
| "collect_routes (trip # trips) service_routes =
     (case trip ''service_id'' of
        None \<Rightarrow> collect_routes trips service_routes
      | Some service_id \<Rightarrow>
          if service_id = [] then collect_routes trips service_routes
          else (let route_id = (case trip ''route_id'' of
                                  None \<Rightarrow> UNKNOWN_ROUTE_ID
                                | Some r \<Rightarrow> if r = [] then UNKNOWN_ROUTE_ID else r)
                in collect_routes trips
                     (AList.update service_id
                        (insert route_id (lookup_default service_routes service_id {}))
                        service_routes)))"

text \<open>The second loop; \<^verbatim>\<open>groups\<close> is a \<^verbatim>\<open>defaultdict(list)\<close>.\<close>

fun collect_groups ::
  "(string \<times> string set) list \<Rightarrow> row list \<Rightarrow> (group_key \<times> string list) list \<Rightarrow>
   (group_key \<times> string list) list" where
  "collect_groups service_routes [] groups = groups"
| "collect_groups service_routes (cal # cals) groups =
     (case cal ''service_id'' of
        None \<Rightarrow> collect_groups service_routes cals groups
      | Some service_id \<Rightarrow>
          if service_id = [] then collect_groups service_routes cals groups
          else (let routes = sorted_list_of_set
                               (case map_of service_routes service_id of
                                  None \<Rightarrow> {UNKNOWN_ROUTE_ID}
                                | Some rs \<Rightarrow> if rs = {} then {UNKNOWN_ROUTE_ID} else rs);
                    key = (weekday_mask cal, routes)
                in collect_groups service_routes cals
                     (AList.update key (lookup_default groups key [] @ [service_id]) groups)))"

definition build_route_grouping ::
  "row list \<Rightarrow> row list \<Rightarrow> (group_key \<times> string list) list \<times> (string \<times> string set) list" where
  "build_route_grouping calendar_rows trips =
     (let service_routes = collect_routes trips []
      in (collect_groups service_routes calendar_rows [], service_routes))"

subsection \<open>The pruning orchestrator\<close>

record group_record =
  rec_weekday_mask :: string
  rec_route_ids :: "string list"
  rec_service_ids :: "string list"
  rec_winner :: "string option"
  rec_reasons :: "string list"
  rec_is_ambiguous :: bool

text \<open>
  The variables the group loop of \<^verbatim>\<open>_prune_overlaps_factual\<close> updates: the two sets,
  the list \<^verbatim>\<open>diagnostics["groups"]\<close> and the counters of \<^verbatim>\<open>diagnostics["summary"]\<close>.
\<close>

record prune_state =
  services_to_keep :: "string set"
  services_to_prune :: "string set"
  diag_groups :: "group_record list"
  overlapping_groups :: nat
  ambiguous_groups :: nat
  pruned_services :: nat
  kept_services :: nat

record diagnostics =
  diag_pivot_date :: string
  diag_overlap_max_days :: int
  groups_report :: "group_record list"
  total_groups :: nat
  summary_overlapping_groups :: nat
  summary_ambiguous_groups :: nat
  summary_pruned_services :: nat
  summary_kept_services :: nat

text \<open>\<^verbatim>\<open>str(mask)\<close> of a tuple of booleans.\<close>

definition str_mask :: "bool list \<Rightarrow> string" where
  "str_mask wmask =
     ''('' @ join '', '' (map (\<lambda>b. if b then ''True'' else ''False'') wmask) @ '')''"

text \<open>\<^verbatim>\<open>pivot\<close>: today (UTC), or the feed's start date when that is later.\<close>

definition pivot_of :: "(string \<Rightarrow> int option) \<Rightarrow> date \<Rightarrow> row list \<Rightarrow> date" where
  "pivot_of pyint today feed_info =
     (case feed_info of
        [] \<Rightarrow> today
      | fi # _ \<Rightarrow>
          (case parse_ymd pyint (get_default fi ''feed_start_date'' '''') of
             None \<Rightarrow> today
           | Some fs \<Rightarrow> if fs > today then fs else today))"

text \<open>The dict comprehension \<^verbatim>\<open>{cal["service_id"]: cal for cal in calendar_rows}\<close>.\<close>

fun calendars_by_id :: "row list \<Rightarrow> (string \<times> row) list \<Rightarrow> error + (string \<times> row) list" where
  "calendars_by_id [] acc = Inr acc"
| "calendars_by_id (cal # cals) acc =
     (case cal ''service_id'' of
        None \<Rightarrow> Inl KeyError
      | Some sid \<Rightarrow> calendars_by_id cals (AList.update sid cal acc))"

text \<open>The body of the group loop, for one item of \<^verbatim>\<open>groups\<close>.\<close>

definition prune_group ::
  "(string \<Rightarrow> int option) \<Rightarrow> (string \<times> row) list \<Rightarrow> row list \<Rightarrow> date \<Rightarrow> int \<Rightarrow>
   group_key \<times> string list \<Rightarrow> prune_state \<Rightarrow> error + prune_state" where
  "prune_group pyint calendars_dict calendar_dates pivot overlap_max_days item st =
     (case item of ((wmask, route_ids), service_ids) \<Rightarrow>
        (let active_day_count = length (filter (\<lambda>f. f) wmask);
             route_label = join '','' route_ids
         in if length service_ids \<le> 1
            then Inr (st\<lparr>services_to_keep := services_to_keep st \<union> set service_ids,
                         kept_services := kept_services st + length service_ids\<rparr>)
            else if active_day_count \<le> 2
            then Inr (st\<lparr>services_to_keep := services_to_keep st \<union> set service_ids,
                         overlapping_groups := overlapping_groups st + 1,
                         ambiguous_groups := ambiguous_groups st + 1,
                         kept_services := kept_services st + length service_ids,
                         diag_groups := diag_groups st @
                           [\<lparr>rec_weekday_mask = str_mask wmask,
                             rec_route_ids = route_ids,
                             rec_service_ids = service_ids,
                             rec_winner = None,
                             rec_reasons =
                               [''Weekday mask has '' @ show_nat active_day_count @
                                  '' active day(s); keeping all services'',
                                ''Routes: '' @ route_label],
                             rec_is_ambiguous = True\<rparr>]\<rparr>)
            else (case choose_service_winner_factual pyint service_ids calendars_dict
                         calendar_dates pivot overlap_max_days of
                    Inl e \<Rightarrow> Inl e
                  | Inr (w, rs, amb) \<Rightarrow>
                      (let st1 = st\<lparr>overlapping_groups := overlapping_groups st + 1,
                                     diag_groups := diag_groups st @
                                       [\<lparr>rec_weekday_mask = str_mask wmask,
                                         rec_route_ids = route_ids,
                                         rec_service_ids = service_ids,
                                         rec_winner = w,
                                         rec_reasons = rs,
                                         rec_is_ambiguous = amb\<rparr>]\<rparr>
                       in if amb \<or> w = None \<or> w = Some []
                          then Inr (st1\<lparr>services_to_keep := services_to_keep st1 \<union> set service_ids,
                                        ambiguous_groups := ambiguous_groups st1 + 1,
                                        kept_services := kept_services st1 + length service_ids\<rparr>)
                          else (let pruned = filter (\<lambda>s. Some s \<noteq> w) service_ids
                                in Inr (st1\<lparr>services_to_keep := services_to_keep st1 \<union> set_option w,
                                             services_to_prune := services_to_prune st1 \<union> set pruned,
                                             pruned_services := pruned_services st1 + length pruned,
                                             kept_services := kept_services st1 + 1\<rparr>))))))"

fun prune_loop ::
  "(string \<Rightarrow> int option) \<Rightarrow> (string \<times> row) list \<Rightarrow> row list \<Rightarrow> date \<Rightarrow> int \<Rightarrow>
   (group_key \<times> string list) list \<Rightarrow> prune_state \<Rightarrow> error + prune_state" where
  "prune_loop pyint calendars_dict calendar_dates pivot overlap_max_days [] st = Inr st"
| "prune_loop pyint calendars_dict calendar_dates pivot overlap_max_days (item # items) st =
     (case prune_group pyint calendars_dict calendar_dates pivot overlap_max_days item st of
        Inl e \<Rightarrow> Inl e
      | Inr st' \<Rightarrow> prune_loop pyint calendars_dict calendar_dates pivot overlap_max_days items st')"

definition initial_state :: prune_state where
  "initial_state =
     \<lparr>services_to_keep = {}, services_to_prune = {}, diag_groups = [],
      overlapping_groups = 0, ambiguous_groups = 0, pruned_services = 0, kept_services = 0\<rparr>"

text \<open>
  The first half of \<^verbatim>\<open>_prune_overlaps_factual\<close>, up to the end of the group loop: the
  groups in the order \<^verbatim>\<open>sorted(groups.items(), key=...)\<close> visits them, and the state
  the loop ends in.
\<close>

definition sorted_groups :: "row list \<Rightarrow> row list \<Rightarrow> (group_key \<times> string list) list" where
  "sorted_groups calendar_rows trips = sort_key fst (fst (build_route_grouping calendar_rows trips))"

definition prune_decisions ::
  "(string \<Rightarrow> int option) \<Rightarrow> date \<Rightarrow> row list \<Rightarrow> row list \<Rightarrow> row list \<Rightarrow> row list \<Rightarrow> int \<Rightarrow>
   error + prune_state" where
  "prune_decisions pyint today calendar_rows calendar_dates trips feed_info overlap_max_days =
     (case calendars_by_id calendar_rows [] of
        Inl e \<Rightarrow> Inl e
      | Inr calendars_dict \<Rightarrow>
          prune_loop pyint calendars_dict calendar_dates (pivot_of pyint today feed_info)
            overlap_max_days (sorted_groups calendar_rows trips) initial_state)"

text \<open>The subscript \<^verbatim>\<open>row["service_id"] in services_to_keep\<close> of the two comprehensions.\<close>

definition service_kept :: "string set \<Rightarrow> row \<Rightarrow> error + bool" where
  "service_kept keep r = (case r ''service_id'' of None \<Rightarrow> Inl KeyError | Some s \<Rightarrow> Inr (s \<in> keep))"

definition trip_kept :: "string set \<Rightarrow> row \<Rightarrow> bool" where
  "trip_kept keep t = (case t ''service_id'' of None \<Rightarrow> False | Some s \<Rightarrow> s \<in> keep)"

definition stop_time_kept :: "string set \<Rightarrow> row \<Rightarrow> bool" where
  "stop_time_kept kept_trip_ids st =
     (case st ''trip_id'' of None \<Rightarrow> False | Some i \<Rightarrow> i \<in> kept_trip_ids)"

text \<open>
  \<^verbatim>\<open>_prune_overlaps_factual\<close>. The parameter \<open>today\<close> is \<^verbatim>\<open>datetime.utcnow().date()\<close>;
  \<^verbatim>\<open>agencies\<close> is not read by the function.
\<close>

definition prune_overlaps_factual ::
  "(string \<Rightarrow> int option) \<Rightarrow> date \<Rightarrow> row list \<Rightarrow> row list \<Rightarrow> row list \<Rightarrow> row list \<Rightarrow> row list \<Rightarrow>
   row list \<Rightarrow> int \<Rightarrow> error + row list \<times> row list \<times> row list \<times> row list \<times> diagnostics" where
  "prune_overlaps_factual pyint today agencies calendar_rows calendar_dates trips stop_times
     feed_info overlap_max_days =
     (case prune_decisions pyint today calendar_rows calendar_dates trips feed_info
             overlap_max_days of
        Inl e \<Rightarrow> Inl e
      | Inr st \<Rightarrow>
          (case filter_e (service_kept (services_to_keep st)) calendar_rows of
             Inl e \<Rightarrow> Inl e
           | Inr cal_f \<Rightarrow>
               (case filter_e (service_kept (services_to_keep st)) calendar_dates of
                  Inl e \<Rightarrow> Inl e
                | Inr cd_f \<Rightarrow>
                    (let trips_f = filter (trip_kept (services_to_keep st)) trips;
                         kept_trip_ids = set (map (\<lambda>t. get_default t ''trip_id'' '''') trips_f);
                         stop_times_f = filter (stop_time_kept kept_trip_ids) stop_times
                     in Inr (cal_f, cd_f, trips_f, stop_times_f,
                             \<lparr>diag_pivot_date = format_ymd (pivot_of pyint today feed_info),
                              diag_overlap_max_days = overlap_max_days,
                              groups_report = diag_groups st,
                              total_groups = length (sorted_groups calendar_rows trips),
                              summary_overlapping_groups = overlapping_groups st,
                              summary_ambiguous_groups = ambiguous_groups st,
                              summary_pruned_services = pruned_services st,
                              summary_kept_services = kept_services st\<rparr>)))))"

subsection \<open>Notions of the specification\<close>

text \<open>
  A calendar is active on \<open>D\<close> when both of its dates parse, the range contains \<open>D\<close> and the
  flag of the weekday of \<open>D\<close> is set; \<open>week_days\<close> lists the columns Monday first.
\<close>

definition calendar_active_on :: "(string \<Rightarrow> int option) \<Rightarrow> date \<Rightarrow> row \<Rightarrow> bool" where
  "calendar_active_on pyint D r =
     (case (yyyymmdd_to_date pyint (get_default r ''start_date'' ''''),
            yyyymmdd_to_date pyint (get_default r ''end_date'' '''')) of
        (Some start, Some fin) \<Rightarrow> start \<le> D \<and> D \<le> fin \<and> r (week_days ! weekday D) = Some ''1''
      | _ \<Rightarrow> False)"

definition weekly_services :: "(string \<Rightarrow> int option) \<Rightarrow> date \<Rightarrow> row list \<Rightarrow> string set" where
  "weekly_services pyint D rows =
     set (List.map_filter (\<lambda>r. if calendar_active_on pyint D r then r ''service_id'' else None) rows)"

text \<open>One exception applied to a working set: Add inserts, Remove deletes.\<close>

definition apply_exception :: "string set \<Rightarrow> row \<Rightarrow> string set" where
  "apply_exception active exc =
     (if exc ''exception_type'' = Some ''1'' then insert (get_default exc ''service_id'' '''') active
      else if exc ''exception_type'' = Some ''2'' then active - {get_default exc ''service_id'' ''''}
      else active)"




text \<open>
  The set the two loops of the activation model build, with the exceptions selected as the
  code selects them: by the key that \<open>date_to_yyyymmdd\<close> renders.
\<close>

definition services_on :: "(string \<Rightarrow> int option) \<Rightarrow> date \<Rightarrow> row list \<Rightarrow> row list \<Rightarrow> string set" where
  "services_on pyint D calendar_rows calendar_dates_rows =
     foldl apply_exception (weekly_services pyint D calendar_rows)
       (filter (\<lambda>exc. exc ''date'' = Some (date_to_yyyymmdd D)) calendar_dates_rows)"

text \<open>The last calendar row that carries the service id \<open>s\<close>.\<close>

definition last_calendar_row :: "row list \<Rightarrow> string \<Rightarrow> row option" where
  "last_calendar_row calendar_rows s = find (\<lambda>r. r ''service_id'' = Some s) (rev calendar_rows)"

text \<open>
  The signature of the set of services active on a day, and the shape of a list of windows
  over \<open>[a, b]\<close>: chronological, each window non-empty, each starting the day after the one
  before it ends, adjacent windows with different signatures and one signature inside
  each window.
\<close>

definition day_sig ::
  "(string \<Rightarrow> int option) \<Rightarrow> (string \<Rightarrow> nat) \<Rightarrow> row list \<Rightarrow> row list \<Rightarrow> date \<Rightarrow> nat \<times> nat" where
  "day_sig pyint sha cal cd d = sig sha (services_on pyint d cal cd)"

definition windows_ok :: "(date \<Rightarrow> nat \<times> nat) \<Rightarrow> date \<Rightarrow> date \<Rightarrow> (date \<times> date) list \<Rightarrow> bool" where
  "windows_ok sg a b ws =
     (ws \<noteq> [] \<and> fst (hd ws) = a \<and> snd (last ws) = b \<and>
      (\<forall>w\<in>set ws. fst w \<le> snd w) \<and>
      successively (\<lambda>w v. fst v = snd w + 1) ws \<and>
      distinct_adj (map (\<lambda>w. sg (fst w)) ws) \<and>
      (\<forall>w\<in>set ws. \<forall>d\<in>{fst w..snd w}. sg d = sg (fst w)))"

text \<open>
  The active dates of a service, in closed form: the days of the calendar's range whose
  weekday flag is set, then the service's own exceptions applied in input order. The
  expansion loop overflows exactly when the range is non-empty and ends on the last date.
\<close>

definition weekly_dates :: "(string \<Rightarrow> int option) \<Rightarrow> row \<Rightarrow> date set" where
  "weekly_dates pyint cal =
     (case (parse_ymd pyint (get_default cal ''start_date'' ''''),
            parse_ymd pyint (get_default cal ''end_date'' '''')) of
        (Some start, Some fin) \<Rightarrow> Set.filter (\<lambda>d. weekday_mask cal ! weekday d) {start..fin}
      | _ \<Rightarrow> {})"

definition expansion_overflows :: "(string \<Rightarrow> int option) \<Rightarrow> row \<Rightarrow> bool" where
  "expansion_overflows pyint cal =
     (case (parse_ymd pyint (get_default cal ''start_date'' ''''),
            parse_ymd pyint (get_default cal ''end_date'' '''')) of
        (Some start, Some fin) \<Rightarrow> start \<le> fin \<and> MAXORDINAL \<le> fin
      | _ \<Rightarrow> False)"

definition apply_date_exception :: "(string \<Rightarrow> int option) \<Rightarrow> date set \<Rightarrow> row \<Rightarrow> date set" where
  "apply_date_exception pyint active exc =
     (case parse_ymd pyint (get_default exc ''date'' '''') of
        None \<Rightarrow> active
      | Some d \<Rightarrow>
          if exc ''exception_type'' = Some ''1'' then insert d active
          else if exc ''exception_type'' = Some ''2'' then active - {d}
          else active)"

definition service_dates :: "(string \<Rightarrow> int option) \<Rightarrow> string \<Rightarrow> row \<Rightarrow> row list \<Rightarrow> date set" where
  "service_dates pyint s cal calendar_dates =
     foldl (apply_date_exception pyint) (weekly_dates pyint cal)
       (filter (\<lambda>exc. exc ''service_id'' = Some s) calendar_dates)"

text \<open>The metrics of the specification, for the calendar the resolver reads for a service.\<close>

definition dates_of ::
  "(string \<Rightarrow> int option) \<Rightarrow> (string \<times> row) list \<Rightarrow> row list \<Rightarrow> string \<Rightarrow> date set" where
  "dates_of pyint calendars calendar_dates s =
     service_dates pyint s (lookup_default calendars s Map.empty) calendar_dates"

definition last_active_of ::
  "(string \<Rightarrow> int option) \<Rightarrow> (string \<times> row) list \<Rightarrow> row list \<Rightarrow> string \<Rightarrow> date option" where
  "last_active_of pyint calendars calendar_dates s =
     (if dates_of pyint calendars calendar_dates s = {} then None
      else Some (Max (dates_of pyint calendars calendar_dates s)))"

definition active_after_of ::
  "(string \<Rightarrow> int option) \<Rightarrow> (string \<times> row) list \<Rightarrow> row list \<Rightarrow> date \<Rightarrow> string \<Rightarrow> nat" where
  "active_after_of pyint calendars calendar_dates pivot s =
     card (Set.filter (\<lambda>d. pivot \<le> d) (dates_of pyint calendars calendar_dates s))"

definition start_of :: "(string \<Rightarrow> int option) \<Rightarrow> (string \<times> row) list \<Rightarrow> string \<Rightarrow> date option" where
  "start_of pyint calendars s =
     parse_ymd pyint (get_default (lookup_default calendars s Map.empty) ''start_date'' '''')"

definition can_expand :: "(string \<Rightarrow> int option) \<Rightarrow> (string \<times> row) list \<Rightarrow> string \<Rightarrow> bool" where
  "can_expand pyint calendars s = (\<not> expansion_overflows pyint (lookup_default calendars s Map.empty))"

text \<open>All pairs of candidates, the second after the first, and the largest overlap among them.\<close>

fun pairs :: "'a list \<Rightarrow> ('a \<times> 'a) list" where
  "pairs [] = []"
| "pairs (x # xs) = map (Pair x) xs @ pairs xs"

definition max_pairwise_overlap :: "(string \<Rightarrow> date set) \<Rightarrow> string list \<Rightarrow> nat" where
  "max_pairwise_overlap D xs = Max (set (0 # map (\<lambda>p. card (D (fst p) \<inter> D (snd p))) (pairs xs)))"

definition ambiguous_reason :: "nat \<Rightarrow> int \<Rightarrow> string" where
  "ambiguous_reason overlap threshold =
     ''Ambiguous: services overlap by '' @ show_nat overlap @ '' days (> '' @ show_int threshold @ '')''"

text \<open>What the dictionary holds once the loop has ended.\<close>

definition metrics_for ::
  "(string \<Rightarrow> int option) \<Rightarrow> (string \<times> row) list \<Rightarrow> row list \<Rightarrow> date \<Rightarrow> string \<Rightarrow> metrics" where
  "metrics_for pyint calendars cds pivot s =
     \<lparr>active_dates = dates_of pyint calendars cds s,
      start_date = start_of pyint calendars s,
      last_active_date = last_active_of pyint calendars cds s,
      active_after_pivot = active_after_of pyint calendars cds pivot s\<rparr>"

text \<open>
  A stage of the elimination chain keeps the candidates whose value is highest; an absent
  value (\<open>None\<close>) is below every present one. The final tiebreak picks the largest pair
  (number, id) when every id parses, and the largest id as a string otherwise.
\<close>

definition keep_highest :: "('a \<Rightarrow> 'b::linorder) \<Rightarrow> 'a list \<Rightarrow> 'a list" where
  "keep_highest f xs = filter (\<lambda>s. \<forall>t\<in>set xs. f t \<le> f s) xs"

definition all_parse :: "(string \<Rightarrow> int option) \<Rightarrow> string list \<Rightarrow> bool" where
  "all_parse pyint xs = list_all (\<lambda>s. pyint s \<noteq> None) xs"

definition final_pick :: "(string \<Rightarrow> int option) \<Rightarrow> string list \<Rightarrow> string" where
  "final_pick pyint xs =
     (if all_parse pyint xs then snd (Max ((\<lambda>s. (the (pyint s), s)) ` set xs))
      else Max (set xs))"

text \<open>The reasons the resolver words.\<close>

definition reason_latest_last :: "date \<Rightarrow> string" where
  "reason_latest_last d = ''Latest last_active_date: '' @ format_ymd d"

definition reason_tied_last :: "date \<Rightarrow> string" where
  "reason_tied_last d = ''Tied on last_active_date: '' @ format_ymd d"

definition reason_most_after :: "nat \<Rightarrow> string" where
  "reason_most_after n = ''Most active days after pivot ('' @ show_nat n @ '' days)''"

definition reason_tied_after :: "nat \<Rightarrow> string" where
  "reason_tied_after n = ''Tied on active days after pivot: '' @ show_nat n"

definition reason_latest_start :: "date \<Rightarrow> string" where
  "reason_latest_start d = ''Latest start_date: '' @ format_ymd d"

definition reason_tied_start :: "date \<Rightarrow> string" where
  "reason_tied_start d = ''Tied on start_date: '' @ format_ymd d"

definition final_reason :: "(string \<Rightarrow> int option) \<Rightarrow> string list \<Rightarrow> string" where
  "final_reason pyint xs =
     (if all_parse pyint xs
      then ''Tiebreaker: highest service_id ('' @ final_pick pyint xs @ '')''
      else ''Tiebreaker: lexicographically highest service_id ('' @ final_pick pyint xs @ '')'')"

text \<open>
  The candidate pools after the first, second and third stage, and the values the stages
  compare: the latest last active date of the group, the largest count of active days
  after the pivot in the first pool, and the latest start date in the second pool.
\<close>

definition pool1 ::
  "(string \<Rightarrow> int option) \<Rightarrow> (string \<times> row) list \<Rightarrow> row list \<Rightarrow> string list \<Rightarrow> string list" where
  "pool1 pyint calendars calendar_dates services =
     keep_highest (last_active_of pyint calendars calendar_dates) services"

definition pool2 ::
  "(string \<Rightarrow> int option) \<Rightarrow> (string \<times> row) list \<Rightarrow> row list \<Rightarrow> date \<Rightarrow> string list \<Rightarrow>
   string list" where
  "pool2 pyint calendars calendar_dates pivot services =
     keep_highest (active_after_of pyint calendars calendar_dates pivot)
       (pool1 pyint calendars calendar_dates services)"

definition pool3 ::
  "(string \<Rightarrow> int option) \<Rightarrow> (string \<times> row) list \<Rightarrow> row list \<Rightarrow> date \<Rightarrow> string list \<Rightarrow>
   string list" where
  "pool3 pyint calendars calendar_dates pivot services =
     keep_highest (start_of pyint calendars)
       (pool2 pyint calendars calendar_dates pivot services)"

definition top_last ::
  "(string \<Rightarrow> int option) \<Rightarrow> (string \<times> row) list \<Rightarrow> row list \<Rightarrow> string list \<Rightarrow> date option" where
  "top_last pyint calendars calendar_dates services =
     Max (last_active_of pyint calendars calendar_dates ` set services)"

definition top_after ::
  "(string \<Rightarrow> int option) \<Rightarrow> (string \<times> row) list \<Rightarrow> row list \<Rightarrow> date \<Rightarrow> string list \<Rightarrow> nat" where
  "top_after pyint calendars calendar_dates pivot services =
     Max (active_after_of pyint calendars calendar_dates pivot `
          set (pool1 pyint calendars calendar_dates services))"

definition top_start ::
  "(string \<Rightarrow> int option) \<Rightarrow> (string \<times> row) list \<Rightarrow> row list \<Rightarrow> date \<Rightarrow> string list \<Rightarrow>
   date option" where
  "top_start pyint calendars calendar_dates pivot services =
     Max (start_of pyint calendars ` set (pool2 pyint calendars calendar_dates pivot services))"

text \<open>The outcome of the chain as a function of the three metrics: the winner and the reasons.\<close>

definition chain_outcome ::
  "(string \<Rightarrow> int option) \<Rightarrow> (string \<Rightarrow> date option) \<Rightarrow> (string \<Rightarrow> nat) \<Rightarrow> (string \<Rightarrow> date option) \<Rightarrow>
   string list \<Rightarrow> string \<times> string list" where
  "chain_outcome pyint la ap sd services =
     (let L = Max (la ` set services); c1 = keep_highest la services
      in if L \<noteq> None \<and> length c1 = 1 then (hd c1, [reason_latest_last (the L)])
         else
           (let r1 = (if L \<noteq> None then [reason_tied_last (the L)] else []);
                A = Max (ap ` set c1); c2 = keep_highest ap c1
            in if length c2 = 1 then (hd c2, r1 @ [reason_most_after A])
               else
                 (let r2 = r1 @ (if 0 < A then [reason_tied_after A] else []);
                      S = Max (sd ` set c2); c3 = keep_highest sd c2
                  in if S \<noteq> None \<and> length c3 = 1
                     then (hd c3, r2 @ [reason_latest_start (the S)])
                     else (final_pick pyint c3,
                           r2 @ (if S \<noteq> None then [reason_tied_start (the S)] else []) @
                           [final_reason pyint c3]))))"

subsection \<open>Example data\<close>

text \<open>
  The examples read identifiers and date fields with \<open>dec_int\<close>, which agrees with
  \<^verbatim>\<open>int(s)\<close> on non-empty strings of ASCII digits.
\<close>

definition dec_int :: "string \<Rightarrow> int option" where
  "dec_int s =
     (if s \<noteq> [] \<and> (\<forall>c\<in>set s. c \<in> set ''0123456789'')
      then Some (foldl (\<lambda>a c. 10 * a + int (of_char c) - 48) 0 s) else None)"

text \<open>A Monday-to-Friday calendar for January 2024, and exceptions on Monday 2024-01-08.\<close>

definition ex_weekdays :: row where
  "ex_weekdays =
     [''service_id'' \<mapsto> ''WK'', ''monday'' \<mapsto> ''1'', ''tuesday'' \<mapsto> ''1'', ''wednesday'' \<mapsto> ''1'',
      ''thursday'' \<mapsto> ''1'', ''friday'' \<mapsto> ''1'', ''saturday'' \<mapsto> ''0'', ''sunday'' \<mapsto> ''0'',
      ''start_date'' \<mapsto> ''20240101'', ''end_date'' \<mapsto> ''20240131'']"




text \<open>Two calendar rows of the same service id that differ in their end date.\<close>

definition ex_old :: row where
  "ex_old =
     [''service_id'' \<mapsto> ''100'', ''monday'' \<mapsto> ''1'', ''start_date'' \<mapsto> ''20240101'',
      ''end_date'' \<mapsto> ''20240107'']"

definition ex_new :: row where
  "ex_new =
     [''service_id'' \<mapsto> ''100'', ''monday'' \<mapsto> ''1'', ''start_date'' \<mapsto> ''20240101'',
      ''end_date'' \<mapsto> ''20240114'']"

text \<open>A stand-in for the hash of the window scanner.\<close>

definition ex_sha :: "string \<Rightarrow> nat" where
  "ex_sha s = length s"

text \<open>Two services with the same weekday flags; the second starts a week later.\<close>

definition ex_c100 :: row where
  "ex_c100 =
     [''service_id'' \<mapsto> ''100'', ''monday'' \<mapsto> ''1'', ''tuesday'' \<mapsto> ''1'', ''wednesday'' \<mapsto> ''1'',
      ''start_date'' \<mapsto> ''20240101'', ''end_date'' \<mapsto> ''20240110'']"

definition ex_c101 :: row where
  "ex_c101 =
     [''service_id'' \<mapsto> ''101'', ''monday'' \<mapsto> ''1'', ''tuesday'' \<mapsto> ''1'', ''wednesday'' \<mapsto> ''1'',
      ''start_date'' \<mapsto> ''20240108'', ''end_date'' \<mapsto> ''20240110'']"

definition ex_calendars :: "(string \<times> row) list" where
  "ex_calendars = [(''100'', ex_c100), (''101'', ex_c101)]"

text \<open>Two services that run on Friday 9999-12-31 only, the last date there is.\<close>

definition ex_last_a :: row where
  "ex_last_a =
     [''service_id'' \<mapsto> ''A'', ''friday'' \<mapsto> ''1'', ''start_date'' \<mapsto> ''99991231'',
      ''end_date'' \<mapsto> ''99991231'']"

definition ex_last_b :: row where
  "ex_last_b =
     [''service_id'' \<mapsto> ''B'', ''friday'' \<mapsto> ''1'', ''start_date'' \<mapsto> ''99991231'',
      ''end_date'' \<mapsto> ''99991231'']"

definition ex_last_day :: "(string \<times> row) list" where
  "ex_last_day = [(''A'', ex_last_a), (''B'', ex_last_b)]"

section \<open>Verified properties\<close>

subsection \<open>The activation model\<close>

lemma weekday_less_7: "weekday D < 7"
  by (simp add: weekday_def nat_less_iff)

lemma length_week_days: "length week_days = 7"
  by (simp add: week_days_def)

lemma weekday_mask_nth:
  assumes "i < 7"
  shows "weekday_mask r ! i = (r (week_days ! i) = Some ''1'')"
proof -
  have "weekday_mask r ! i = (get_default r (week_days ! i) ''0'' = ''1'')"
    using assms by (simp add: weekday_mask_def length_week_days)
  then show ?thesis
    by (simp add: get_default_def split: option.split)
qed

lemma calendar_scan_Cons:
  "calendar_scan pyint D (r # rows) active =
     (if calendar_active_on pyint D r
      then (case r ''service_id'' of
              None \<Rightarrow> Inl KeyError
            | Some sid \<Rightarrow> calendar_scan pyint D rows (insert sid active))
      else calendar_scan pyint D rows active)"
  using weekday_mask_nth[OF weekday_less_7, of r D]
  by (simp add: calendar_active_on_def split: option.split)

lemma weekly_services_Cons:
  "weekly_services pyint D (r # rows) =
     (if calendar_active_on pyint D r then set_option (r ''service_id'') else {})
       \<union> weekly_services pyint D rows"
  by (auto simp: weekly_services_def List.map_filter_simps split: option.splits)

lemma calendar_scan_closed:
  assumes "\<forall>r\<in>set rows. calendar_active_on pyint D r \<longrightarrow> r ''service_id'' \<noteq> None"
  shows "calendar_scan pyint D rows active = Inr (active \<union> weekly_services pyint D rows)"
  using assms
proof (induction rows arbitrary: active)
  case Nil
  then show ?case by (simp add: weekly_services_def List.map_filter_simps)
next
  case (Cons r rows)
  show ?case
  proof (cases "calendar_active_on pyint D r")
    case True
    with Cons.prems obtain sid where sid: "r ''service_id'' = Some sid" by auto
    have "calendar_scan pyint D (r # rows) active = calendar_scan pyint D rows (insert sid active)"
      using True sid by (simp only: calendar_scan_Cons if_True option.case)
    also have "\<dots> = Inr (insert sid active \<union> weekly_services pyint D rows)"
      using Cons.IH[of "insert sid active"] Cons.prems by simp
    finally show ?thesis using True sid by (simp only: weekly_services_Cons) simp
  next
    case False
    have "calendar_scan pyint D (r # rows) active = calendar_scan pyint D rows active"
      using False by (simp only: calendar_scan_Cons if_False)
    also have "\<dots> = Inr (active \<union> weekly_services pyint D rows)"
      using Cons.IH[of active] Cons.prems by simp
    finally show ?thesis using False by (simp only: weekly_services_Cons) simp
  qed
qed

lemma exception_scan_foldl:
  "exception_scan key excs active =
     foldl apply_exception active (filter (\<lambda>exc. exc ''date'' = Some key) excs)"
  by (induction excs arbitrary: active)
     (auto simp: apply_exception_def get_default_def Let_def split: option.splits)

lemma active_services_on_closed:
  assumes "\<forall>r\<in>set calendar_rows. calendar_active_on pyint D r \<longrightarrow> r ''service_id'' \<noteq> None"
  shows "active_services_on pyint D calendar_rows calendar_dates_rows =
           Inr (services_on pyint D calendar_rows calendar_dates_rows)"
  using calendar_scan_closed[OF assms, of "{}"]
  by (simp add: active_services_on_def services_on_def exception_scan_foldl)









subsection \<open>The resolver: metrics per service\<close>

text \<open>
  Claim C9. Called with an empty list of services, the resolver does not raise: it returns
  no winner, the single reason "Only one service in group", and the flag for ambiguity unset.
\<close>

theorem empty_group_result:
  "choose_service_winner_factual pyint [] calendars calendar_dates pivot overlap_max_days =
     Inr (None, [''Only one service in group''], False)"
  by (simp add: choose_service_winner_factual_def)

lemma find_snoc:
  "find P (xs @ [x]) = (case find P xs of None \<Rightarrow> (if P x then Some x else None) | Some y \<Rightarrow> Some y)"
  by (induction xs) auto

lemma calendars_by_id_map_of:
  "calendars_by_id rows acc = Inr cd \<Longrightarrow>
   map_of cd s = (case last_calendar_row rows s of None \<Rightarrow> map_of acc s | Some r \<Rightarrow> Some r)"
proof (induction rows arbitrary: acc)
  case Nil
  then show ?case by (simp add: last_calendar_row_def)
next
  case (Cons r rows)
  from Cons.prems obtain k where k: "r ''service_id'' = Some k"
    and rest: "calendars_by_id rows (AList.update k r acc) = Inr cd"
    by (auto split: option.splits)
  show ?case
    using Cons.IH[OF rest] k
    by (auto simp: last_calendar_row_def find_snoc update_conv' split: option.splits)
qed

lemma build_metrics_entries:
  "build_metrics pyint svcs cals cds pivot acc = Inr ms \<Longrightarrow>
   (\<forall>s\<in>set svcs. service_metrics pyint s cals cds pivot = Inr (the (map_of ms s))
                  \<and> map_of ms s \<noteq> None) \<and>
   (\<forall>s. s \<notin> set svcs \<longrightarrow> map_of ms s = map_of acc s) \<and>
   fst ` set ms = fst ` set acc \<union> set svcs"
proof (induction svcs arbitrary: acc)
  case Nil
  then show ?case by simp
next
  case (Cons a svcs)
  from Cons.prems obtain m where m: "service_metrics pyint a cals cds pivot = Inr m"
    and rest: "build_metrics pyint svcs cals cds pivot (AList.update a m acc) = Inr ms"
    by (auto split: sum.splits)
  note IH = Cons.IH[OF rest]
  have a_entry: "service_metrics pyint a cals cds pivot = Inr (the (map_of ms a)) \<and> map_of ms a \<noteq> None"
  proof (cases "a \<in> set svcs")
    case True
    with IH m show ?thesis by auto
  next
    case False
    with IH have "map_of ms a = map_of (AList.update a m acc) a" by blast
    with m show ?thesis by (simp add: update_conv')
  qed
  have others: "\<forall>s. s \<notin> set (a # svcs) \<longrightarrow> map_of ms s = map_of acc s"
    using IH by (auto simp: update_conv')
  have keys: "fst ` set ms = fst ` set acc \<union> set (a # svcs)"
    using IH by (auto simp: dom_update image_iff)
  show ?case using a_entry IH others keys by auto
qed

text \<open>
  Claim C10. The orchestrator maps each service id to a calendar row with later rows
  overwriting earlier ones, so when several calendar rows share a service id the mapping
  holds the last of them; and the entry the resolver computes for that service (active
  dates, start date, last active date, active days after the pivot) is the entry computed
  from that last row alone.
\<close>

theorem last_row_metrics:
  assumes "calendars_by_id calendar_rows [] = Inr calendars_dict"
    and "last_calendar_row calendar_rows s = Some r"
    and "build_metrics pyint services calendars_dict calendar_dates pivot [] = Inr ms"
    and "s \<in> set services"
  shows "map_of calendars_dict s = Some r \<and>
         (\<exists>m. map_of ms s = Some m \<and> row_metrics pyint s r calendar_dates pivot = Inr m)"
proof -
  have r: "map_of calendars_dict s = Some r"
    using calendars_by_id_map_of[OF assms(1), of s] assms(2) by simp
  then have "service_metrics pyint s calendars_dict calendar_dates pivot =
               row_metrics pyint s r calendar_dates pivot"
    by (simp add: service_metrics_def lookup_default_def)
  with build_metrics_entries[OF assms(3)] assms(4) r show ?thesis by auto
qed

theorem last_row_metrics_witness:
  "map_of [(''100'', ex_new)] ''100'' = Some ex_new \<and>
   (\<exists>m. map_of [(''100'', \<lparr>active_dates = {738886, 738893}, start_date = Some 738886,
                           last_active_date = Some 738893, active_after_pivot = 2\<rparr>)] ''100'' = Some m
        \<and> row_metrics dec_int ''100'' ex_new [] 738886 = Inr m)"
proof -
  have h1: "calendars_by_id [ex_old, ex_new] [] = Inr [(''100'', ex_new)]"
    by (simp add: ex_old_def ex_new_def)
  have h2: "last_calendar_row [ex_old, ex_new] ''100'' = Some ex_new"
    by (simp add: last_calendar_row_def ex_old_def ex_new_def)
  have h3: "build_metrics dec_int [''100''] [(''100'', ex_new)] [] 738886 [] =
              Inr [(''100'', \<lparr>active_dates = {738886, 738893}, start_date = Some 738886,
                             last_active_date = Some 738893, active_after_pivot = 2\<rparr>)]"
    by code_simp
  have h4: "''100'' \<in> set [''100'']"
    by simp
  show ?thesis
    by (rule last_row_metrics[OF h1 h2 h3 h4])
qed

subsection \<open>The window scanner\<close>

lemma windows_ok_single: "windows_ok sg a a [(a, a)]"
  by (simp add: windows_ok_def)

lemma windows_ok_one:
  "windows_ok sg a b [(x, y)] = (x = a \<and> y = b \<and> x \<le> y \<and> (\<forall>d\<in>{x..y}. sg d = sg x))"
  by (simp add: windows_ok_def)

lemma windows_ok_snoc:
  assumes "ws \<noteq> []"
  shows "windows_ok sg a b (ws @ [(x, y)]) =
     (y = b \<and> x \<le> y \<and> (\<forall>d\<in>{x..y}. sg d = sg x) \<and>
      windows_ok sg a (x - 1) ws \<and> sg (fst (last ws)) \<noteq> sg x)"
proof -
  have adj: "(x = snd (last ws) + 1) = (snd (last ws) = x - 1)" by arith
  from assms show ?thesis
    unfolding windows_ok_def
    by (simp add: successively_append_iff distinct_adj_append_iff last_map ball_Un adj) blast
qed

lemma interval_Suc:
  fixes x b :: int
  assumes "\<forall>d\<in>{x..b}. P d" and "P (b + 1)"
  shows "\<forall>d\<in>{x..b + 1}. P d"
proof
  fix d assume "d \<in> {x..b + 1}"
  then have "d \<in> {x..b} \<or> d = b + 1" by auto
  with assms show "P d" by blast
qed

lemma windows_ok_extend:
  assumes "windows_ok sg a b (ws @ [(x, b)])" and "sg (b + 1) = sg x"
  shows "windows_ok sg a (b + 1) (ws @ [(x, b + 1)])"
proof (cases "ws = []")
  case True
  from assms(1) have p: "x = a \<and> x \<le> b \<and> (\<forall>d\<in>{x..b}. sg d = sg x)"
    unfolding True append_Nil windows_ok_one by blast
  then have le: "x \<le> b + 1" by simp
  from p interval_Suc[of x b "\<lambda>d. sg d = sg x"] assms(2)
  have c: "\<forall>d\<in>{x..b + 1}. sg d = sg x" by blast
  show ?thesis
    unfolding True append_Nil windows_ok_one using p le c by blast
next
  case False
  from assms(1) have p: "x \<le> b \<and> (\<forall>d\<in>{x..b}. sg d = sg x) \<and>
      windows_ok sg a (x - 1) ws \<and> sg (fst (last ws)) \<noteq> sg x"
    unfolding windows_ok_snoc[OF False] by blast
  then have le: "x \<le> b + 1" by simp
  from p interval_Suc[of x b "\<lambda>d. sg d = sg x"] assms(2)
  have c: "\<forall>d\<in>{x..b + 1}. sg d = sg x" by blast
  show ?thesis
    unfolding windows_ok_snoc[OF False] using p le c by blast
qed

lemma windows_ok_new:
  assumes "windows_ok sg a b (ws @ [(x, b)])" and "sg (b + 1) \<noteq> sg x"
  shows "windows_ok sg a (b + 1) ((ws @ [(x, b)]) @ [(b + 1, b + 1)])"
proof -
  have ne: "ws @ [(x, b)] \<noteq> []" by simp
  show ?thesis
    unfolding windows_ok_snoc[OF ne] using assms by simp
qed

lemma window_scan_inv:
  assumes cols: "\<forall>r\<in>set cal. r ''service_id'' \<noteq> None"
    and lo: "1 \<le> start" and hi: "start + N \<le> MAXORDINAL"
  shows "0 \<le> k \<Longrightarrow> k \<le> N \<Longrightarrow>
         windows_ok (day_sig pyint sha cal cd) start (start + k) (wins @ [(cf, start + k)]) \<Longrightarrow>
         \<exists>cf' wins'.
           window_scan pyint sha start cal cd [k + 1..N] (cf, day_sig pyint sha cal cd cf, wins) =
             Inr (cf', day_sig pyint sha cal cd cf', wins') \<and>
           windows_ok (day_sig pyint sha cal cd) start (start + N) (wins' @ [(cf', start + N)])"
proof (induction "nat (N - k)" arbitrary: k cf wins)
  case 0
  then have "k = N" by simp
  with 0 show ?case by simp
next
  case (Suc n)
  let ?sg = "day_sig pyint sha cal cd"
  let ?d = "start + (k + 1)"
  from Suc.hyps Suc.prems have kN: "k + 1 \<le> N" by simp
  then have upto: "[k + 1..N] = (k + 1) # [k + 1 + 1..N]"
    by (simp add: upto_rec1)
  have add: "add_days start (k + 1) = Inr ?d"
    using lo hi kN Suc.prems(1) by (simp add: add_days_def)
  have prev: "add_days ?d (- 1) = Inr (start + k)"
    using lo hi kN Suc.prems(1) by (simp add: add_days_def)
  have act: "active_services_on pyint ?d cal cd = Inr (services_on pyint ?d cal cd)"
    using cols by (intro active_services_on_closed) simp
  have n: "n = nat (N - (k + 1))" using Suc.hyps by simp
  have d_eq: "start + k + 1 = ?d" by simp
  show ?case
  proof (cases "?sg ?d = ?sg cf")
    case True
    have ok: "windows_ok ?sg start (start + (k + 1)) (wins @ [(cf, start + (k + 1))])"
      using windows_ok_extend[OF Suc.prems(3)] True by (simp add: add.assoc)
    from Suc.hyps(1)[OF n _ kN ok] Suc.prems(1)
    obtain cf' wins' where
      "window_scan pyint sha start cal cd [k + 1 + 1..N] (cf, ?sg cf, wins) = Inr (cf', ?sg cf', wins')"
      "windows_ok ?sg start (start + N) (wins' @ [(cf', start + N)])"
      by auto
    with True show ?thesis
      by (simp only: upto window_scan.simps add act sum.case) (simp add: day_sig_def)
  next
    case False
    have ok: "windows_ok ?sg start (start + (k + 1)) ((wins @ [(cf, start + k)]) @ [(?d, start + (k + 1))])"
      using windows_ok_new[OF Suc.prems(3)] False by (simp add: add.assoc)
    from Suc.hyps(1)[OF n _ kN ok] Suc.prems(1)
    obtain cf' wins' where
      "window_scan pyint sha start cal cd [k + 1 + 1..N] (?d, ?sg ?d, wins @ [(cf, start + k)]) =
         Inr (cf', ?sg cf', wins')"
      "windows_ok ?sg start (start + N) (wins' @ [(cf', start + N)])"
      by auto
    with False show ?thesis
      by (simp only: upto window_scan.simps add act prev sum.case) (simp add: day_sig_def)
  qed
qed


lemma tiles_union:
  fixes ws :: "(int \<times> int) list"
  assumes "ws \<noteq> []" and "\<forall>w\<in>set ws. fst w \<le> snd w"
    and "successively (\<lambda>w v. fst v = snd w + 1) ws"
  shows "(\<Union>w\<in>set ws. {fst w..snd w}) = {fst (hd ws)..snd (last ws)} \<and>
         fst (hd ws) \<le> snd (last ws)"
  using assms
proof (induction ws rule: list_nonempty_induct)
  case (single w)
  then show ?case by simp
next
  case (cons w ws)
  from cons.prems cons.hyps have adj: "fst (hd ws) = snd w + 1"
    and rest: "successively (\<lambda>w v. fst v = snd w + 1) ws"
    by (simp_all add: successively_Cons)
  from cons.IH[OF _ rest] cons.prems(1)
  have IH: "(\<Union>w\<in>set ws. {fst w..snd w}) = {fst (hd ws)..snd (last ws)}"
    and le: "fst (hd ws) \<le> snd (last ws)" by simp_all
  from cons.prems(1) have w: "fst w \<le> snd w" by simp
  have "{fst w..snd w} \<union> {snd w + 1..snd (last ws)} = {fst w..snd (last ws)}"
    using w le adj by auto
  with IH adj w le cons.hyps show ?case by simp
qed

lemma tiles_sorted:
  fixes ws :: "(int \<times> int) list"
  assumes "ws \<noteq> []" and "\<forall>w\<in>set ws. fst w \<le> snd w"
    and "successively (\<lambda>w v. fst v = snd w + 1) ws"
  shows "sorted_wrt (\<lambda>w v. snd w < fst v) ws \<and> (\<forall>w\<in>set ws. fst (hd ws) \<le> fst w)"
  using assms
proof (induction ws rule: list_nonempty_induct)
  case (single w)
  then show ?case by simp
next
  case (cons w ws)
  from cons.prems cons.hyps have adj: "fst (hd ws) = snd w + 1"
    and rest: "successively (\<lambda>w v. fst v = snd w + 1) ws"
    by (simp_all add: successively_Cons)
  from cons.IH[OF _ rest] cons.prems(1)
  have IH: "sorted_wrt (\<lambda>w v. snd w < fst v) ws" and lo: "\<forall>v\<in>set ws. fst (hd ws) \<le> fst v"
    by simp_all
  from cons.prems(1) have w: "fst w \<le> snd w" by simp
  have "\<forall>v\<in>set ws. snd w < fst v \<and> fst w \<le> fst v"
  proof
    fix v assume "v \<in> set ws"
    with lo have "fst (hd ws) \<le> fst v" by blast
    with adj w show "snd w < fst v \<and> fst w \<le> fst v" by simp
  qed
  with IH show ?case by simp
qed

lemma effective_windows_ok:
  assumes N: "0 < N" and lo: "1 \<le> start" and hi: "start + N \<le> MAXORDINAL"
    and cols: "\<forall>r\<in>set cal. r ''service_id'' \<noteq> None"
  shows "\<exists>ws. effective_windows pyint sha start N cal cd = Inr ws \<and>
              windows_ok (day_sig pyint sha cal cd) start (start + N) ws"
proof -
  let ?sg = "day_sig pyint sha cal cd"
  have act: "active_services_on pyint start cal cd = Inr (services_on pyint start cal cd)"
    using cols by (intro active_services_on_closed) simp
  have init: "windows_ok ?sg start (start + 0) ([] @ [(start, start + 0)])"
    using windows_ok_single[of ?sg start] by simp
  from window_scan_inv[OF cols lo hi _ _ init] N
  obtain cf' wins' where
    scan: "window_scan pyint sha start cal cd [0 + 1..N] (start, ?sg start, []) =
             Inr (cf', ?sg cf', wins')"
    and ok: "windows_ok ?sg start (start + N) (wins' @ [(cf', start + N)])"
    by auto
  have last: "add_days start N = Inr (start + N)"
    using N lo hi by (simp add: add_days_def)
  have "effective_windows pyint sha start N cal cd = Inr (wins' @ [(cf', start + N)])"
    using N scan by (simp add: effective_windows_def act last day_sig_def)
  with ok show ?thesis by blast
qed

text \<open>
  Claim C3, as amended. For a horizon \<open>N \<le> 0\<close> the scanner returns the empty list. For
  \<open>N > 0\<close>, when \<open>start\<close> and \<open>start + N\<close> are dates (the date type ends at 9999-12-31)
  and every calendar row has the \<^verbatim>\<open>service_id\<close> column, it returns a non-empty list of
  windows in chronological order: the first starts at \<open>start\<close>, the last ends at
  \<open>start + N\<close>, every window has \<open>from \<le> to\<close>, each window starts the day after the
  previous one ends, windows are pairwise disjoint, their union is exactly
  \<open>[start, start + N]\<close>, consecutive windows have different signatures, and all days of a
  window have the signature of its first day.
\<close>

theorem effective_windows_tiling:
  "(N \<le> 0 \<longrightarrow> effective_windows pyint sha start N cal cd = Inr []) \<and>
   (0 < N \<and> is_date start \<and> is_date (start + N) \<and> (\<forall>r\<in>set cal. r ''service_id'' \<noteq> None) \<longrightarrow>
    (\<exists>ws. effective_windows pyint sha start N cal cd = Inr ws \<and>
       ws \<noteq> [] \<and> fst (hd ws) = start \<and> snd (last ws) = start + N \<and>
       (\<forall>w\<in>set ws. fst w \<le> snd w) \<and>
       sorted_wrt (\<lambda>w v. snd w < fst v) ws \<and>
       (\<forall>i. Suc i < length ws \<longrightarrow>
            fst (ws ! Suc i) = snd (ws ! i) + 1 \<and>
            day_sig pyint sha cal cd (fst (ws ! Suc i)) \<noteq> day_sig pyint sha cal cd (fst (ws ! i))) \<and>
       (\<Union>w\<in>set ws. {fst w..snd w}) = {start..start + N} \<and>
       (\<forall>w\<in>set ws. \<forall>d\<in>{fst w..snd w}.
            day_sig pyint sha cal cd d = day_sig pyint sha cal cd (fst w))))"
proof (intro conjI impI)
  assume "N \<le> 0"
  then show "effective_windows pyint sha start N cal cd = Inr []"
    by (simp add: effective_windows_def)
next
  let ?sg = "day_sig pyint sha cal cd"
  assume h: "0 < N \<and> is_date start \<and> is_date (start + N) \<and> (\<forall>r\<in>set cal. r ''service_id'' \<noteq> None)"
  then have "0 < N" "1 \<le> start" "start + N \<le> MAXORDINAL" "\<forall>r\<in>set cal. r ''service_id'' \<noteq> None"
    by (simp_all add: is_date_def)
  from effective_windows_ok[OF this, where pyint = pyint and sha = sha and cd = cd]
  obtain ws where res: "effective_windows pyint sha start N cal cd = Inr ws"
    and ok: "windows_ok ?sg start (start + N) ws" by blast
  from ok have ne: "ws \<noteq> []" and first: "fst (hd ws) = start" and final: "snd (last ws) = start + N"
    and wf: "\<forall>w\<in>set ws. fst w \<le> snd w"
    and adj: "successively (\<lambda>w v. fst v = snd w + 1) ws"
    and chg: "distinct_adj (map (\<lambda>w. ?sg (fst w)) ws)"
    and const: "\<forall>w\<in>set ws. \<forall>d\<in>{fst w..snd w}. ?sg d = ?sg (fst w)"
    unfolding windows_ok_def by blast+
  have srt: "sorted_wrt (\<lambda>w v. snd w < fst v) ws"
    using tiles_sorted[OF ne wf adj] by blast
  have un: "(\<Union>w\<in>set ws. {fst w..snd w}) = {start..start + N}"
    using tiles_union[OF ne wf adj] first final by simp
  have steps: "\<forall>i. Suc i < length ws \<longrightarrow>
      fst (ws ! Suc i) = snd (ws ! i) + 1 \<and> ?sg (fst (ws ! Suc i)) \<noteq> ?sg (fst (ws ! i))"
  proof (intro allI impI)
    fix i assume i: "Suc i < length ws"
    from adj i have a: "fst (ws ! Suc i) = snd (ws ! i) + 1"
      by (simp add: successively_conv_nth)
    from chg i have "map (\<lambda>w. ?sg (fst w)) ws ! i \<noteq> map (\<lambda>w. ?sg (fst w)) ws ! Suc i"
      unfolding distinct_adj_def successively_conv_nth by simp
    with i have "?sg (fst (ws ! Suc i)) \<noteq> ?sg (fst (ws ! i))" by simp
    with a show "fst (ws ! Suc i) = snd (ws ! i) + 1 \<and> ?sg (fst (ws ! Suc i)) \<noteq> ?sg (fst (ws ! i))"
      by blast
  qed
  show "\<exists>ws. effective_windows pyint sha start N cal cd = Inr ws \<and>
       ws \<noteq> [] \<and> fst (hd ws) = start \<and> snd (last ws) = start + N \<and>
       (\<forall>w\<in>set ws. fst w \<le> snd w) \<and>
       sorted_wrt (\<lambda>w v. snd w < fst v) ws \<and>
       (\<forall>i. Suc i < length ws \<longrightarrow>
            fst (ws ! Suc i) = snd (ws ! i) + 1 \<and>
            ?sg (fst (ws ! Suc i)) \<noteq> ?sg (fst (ws ! i))) \<and>
       (\<Union>w\<in>set ws. {fst w..snd w}) = {start..start + N} \<and>
       (\<forall>w\<in>set ws. \<forall>d\<in>{fst w..snd w}. ?sg d = ?sg (fst w))"
    by (intro exI[where x = ws] conjI) (fact res ne first final wf srt steps un const)+
qed

text \<open>
  The claim as stated fails for the last date: the scan of one day from 9999-12-31 raises
  \<open>OverflowError\<close> at \<^verbatim>\<open>start + timedelta(days=1)\<close>.
\<close>

theorem effective_windows_overflow:
  "effective_windows dec_int ex_sha MAXORDINAL 1 [] [] = Inl OverflowError"
  by (simp add: effective_windows_def active_services_on_def add_days_def MAXORDINAL_def)

lemma ex_weekdays_active:
  "active_services_on dec_int D [ex_weekdays] [] = Inr (services_on dec_int D [ex_weekdays] [])"
  by (rule active_services_on_closed) (simp add: ex_weekdays_def)

lemma ex_weekdays_sigs:
  "sig ex_sha (services_on dec_int 738890 [ex_weekdays] []) = (1, 2)"
  "sig ex_sha (services_on dec_int 738891 [ex_weekdays] []) = (0, 0)"
  "sig ex_sha (services_on dec_int 738892 [ex_weekdays] []) = (0, 0)"
  "sig ex_sha (services_on dec_int 738893 [ex_weekdays] []) = (1, 2)"
  by code_simp+

text \<open>Friday 2024-01-05 to Monday 2024-01-08: a weekday, the weekend, a weekday.\<close>

theorem effective_windows_tiling_witness:
  "effective_windows dec_int ex_sha 738890 0 [ex_weekdays] [] = Inr [] \<and>
   effective_windows dec_int ex_sha 738890 3 [ex_weekdays] [] =
     Inr [(738890, 738890), (738891, 738892), (738893, 738893)] \<and>
   (\<exists>ws. effective_windows dec_int ex_sha 738890 3 [ex_weekdays] [] = Inr ws \<and>
       ws \<noteq> [] \<and> fst (hd ws) = 738890 \<and> snd (last ws) = 738890 + 3 \<and>
       (\<forall>w\<in>set ws. fst w \<le> snd w) \<and>
       sorted_wrt (\<lambda>w v. snd w < fst v) ws \<and>
       (\<forall>i. Suc i < length ws \<longrightarrow>
            fst (ws ! Suc i) = snd (ws ! i) + 1 \<and>
            day_sig dec_int ex_sha [ex_weekdays] [] (fst (ws ! Suc i)) \<noteq>
            day_sig dec_int ex_sha [ex_weekdays] [] (fst (ws ! i))) \<and>
       (\<Union>w\<in>set ws. {fst w..snd w}) = {738890..738890 + 3} \<and>
       (\<forall>w\<in>set ws. \<forall>d\<in>{fst w..snd w}.
            day_sig dec_int ex_sha [ex_weekdays] [] d =
            day_sig dec_int ex_sha [ex_weekdays] [] (fst w)))"
proof -
  note inst0 = effective_windows_tiling[where pyint = dec_int and sha = ex_sha and start = 738890
      and cal = "[ex_weekdays]" and cd = "[]"]
  have h: "0 < (3::int) \<and> is_date 738890 \<and> is_date (738890 + 3) \<and>
           (\<forall>r\<in>set [ex_weekdays]. r ''service_id'' \<noteq> None)"
    by (simp add: is_date_def MAXORDINAL_def ex_weekdays_def)
  have e: "effective_windows dec_int ex_sha 738890 3 [ex_weekdays] [] =
             Inr [(738890, 738890), (738891, 738892), (738893, 738893)]"
    by (simp add: effective_windows_def ex_weekdays_active ex_weekdays_sigs add_days_def
          MAXORDINAL_def upto_rec1)
  have z: "effective_windows dec_int ex_sha 738890 0 [ex_weekdays] [] = Inr []"
    using inst0[where N = 0] by simp
  note ex = inst0[where N = 3, THEN conjunct2, THEN mp, OF h]
  show ?thesis
    by (intro conjI) (rule z, rule e, rule ex)
qed

subsection \<open>The resolver: active dates and overlap\<close>

lemma days_before_year_nonneg: "1 \<le> y \<Longrightarrow> 0 \<le> days_before_year y"
proof -
  assume y: "1 \<le> y"
  have "(y - 1) div 100 \<le> (y - 1) div 4"
    using y by (intro zdiv_mono2) simp_all
  moreover have "0 \<le> (y - 1) div 400" "0 \<le> (y - 1) * 365"
    using y by simp_all
  ultimately show ?thesis
    unfolding days_before_year_def by linarith
qed

lemma days_before_month_nonneg: "0 \<le> days_before_month y m"
  unfolding days_before_month_def
  by (rule sum_list_nonneg) (auto simp: days_in_month_def)

lemma date_of_ymd_positive: "date_of_ymd y m d = Some ord \<Longrightarrow> 1 \<le> ord"
  using days_before_year_nonneg[of y] days_before_month_nonneg[of y m]
  by (auto simp: date_of_ymd_def ymd2ord_def split: if_splits)

lemma parse_ymd_positive: "parse_ymd pyint s = Some d \<Longrightarrow> 1 \<le> d"
  by (auto simp: parse_ymd_def yyyymmdd_to_date_def date_of_ymd_positive
           split: if_splits option.splits)

lemma expand_calendar_closed:
  "0 \<le> cur \<Longrightarrow>
   expand_calendar wmask cur fin active =
     (if cur \<le> fin \<and> MAXORDINAL \<le> fin then Inl OverflowError
      else Inr (active \<union> Set.filter (\<lambda>d. wmask ! weekday d) {cur..fin}))"
proof (induction wmask cur fin active rule: expand_calendar.induct)
  case (1 wmask cur fin active)
  show ?case
  proof (cases "cur \<le> fin")
    case False
    then show ?thesis
      by (subst expand_calendar.simps) simp
  next
    case le: True
    show ?thesis
    proof (cases "cur + 1 \<le> MAXORDINAL")
      case False
      with le "1.prems" have "add_days cur 1 = Inl OverflowError" "MAXORDINAL \<le> fin"
        by (simp_all add: add_days_def)
      with le show ?thesis
        by (subst expand_calendar.simps) simp
    next
      case True
      with "1.prems" have add: "add_days cur 1 = Inr (cur + 1)"
        by (simp add: add_days_def)
      have split: "{cur..fin} = insert cur {cur + 1..fin}"
        using le by auto
      have cond: "(cur + 1 \<le> fin \<and> MAXORDINAL \<le> fin) = (MAXORDINAL \<le> fin)"
        using True by auto
      have IH: "expand_calendar wmask (cur + 1) fin
                  (if wmask ! weekday cur then insert cur active else active) =
                (if cur + 1 \<le> fin \<and> MAXORDINAL \<le> fin then Inl OverflowError
                 else Inr ((if wmask ! weekday cur then insert cur active else active) \<union>
                           Set.filter (\<lambda>d. wmask ! weekday d) {cur + 1..fin}))"
        using "1.IH"[OF le add] "1.prems" by simp
      have "expand_calendar wmask cur fin active =
              expand_calendar wmask (cur + 1) fin
                (if wmask ! weekday cur then insert cur active else active)"
        using le add by (subst expand_calendar.simps) simp
      also note IH
      finally show ?thesis
        using le by (auto simp: cond split)
    qed
  qed
qed

lemma apply_exceptions_foldl:
  "apply_exceptions pyint s excs active =
     foldl (apply_date_exception pyint) active (filter (\<lambda>exc. exc ''service_id'' = Some s) excs)"
  by (induction excs arbitrary: active)
     (auto simp: apply_date_exception_def get_default_def Let_def split: option.splits)

lemma active_dates_for_service_closed:
  "active_dates_for_service pyint s cal (filter (\<lambda>exc. exc ''service_id'' = Some s) cds) =
     (if expansion_overflows pyint cal then Inl OverflowError
      else Inr (service_dates pyint s cal cds))"
proof -
  let ?a = "parse_ymd pyint (get_default cal ''start_date'' '''')"
  let ?b = "parse_ymd pyint (get_default cal ''end_date'' '''')"
  have "(case (?a, ?b) of
           (Some start, Some fin) \<Rightarrow> expand_calendar (weekday_mask cal) start fin {}
         | _ \<Rightarrow> Inr {}) =
        (if expansion_overflows pyint cal then Inl OverflowError else Inr (weekly_dates pyint cal))"
  proof (cases "?a")
    case None
    then show ?thesis by (simp add: expansion_overflows_def weekly_dates_def)
  next
    case a: (Some start)
    show ?thesis
    proof (cases "?b")
      case None
      with a show ?thesis by (simp add: expansion_overflows_def weekly_dates_def)
    next
      case b: (Some fin)
      from a have "0 \<le> start" using parse_ymd_positive[of pyint _ start] by fastforce
      from expand_calendar_closed[OF this, of "weekday_mask cal" fin "{}"] a b
      show ?thesis
        by (simp add: expansion_overflows_def weekly_dates_def del: expand_calendar.simps)
    qed
  qed
  then show ?thesis
    by (simp add: active_dates_for_service_def service_dates_def apply_exceptions_foldl)
qed

lemma row_metrics_closed:
  "row_metrics pyint s cal cds pivot =
     (if expansion_overflows pyint cal then Inl OverflowError
      else Inr \<lparr>active_dates = service_dates pyint s cal cds,
                start_date = parse_ymd pyint (get_default cal ''start_date'' ''''),
                last_active_date =
                  (if service_dates pyint s cal cds = {} then None
                   else Some (Max (service_dates pyint s cal cds))),
                active_after_pivot =
                  card (Set.filter (\<lambda>d. pivot \<le> d) (service_dates pyint s cal cds))\<rparr>)"
  by (simp add: row_metrics_def active_dates_for_service_closed)

lemma service_metrics_closed:
  "service_metrics pyint s calendars cds pivot =
     (if can_expand pyint calendars s
      then Inr \<lparr>active_dates = dates_of pyint calendars cds s,
                start_date = start_of pyint calendars s,
                last_active_date = last_active_of pyint calendars cds s,
                active_after_pivot = active_after_of pyint calendars cds pivot s\<rparr>
      else Inl OverflowError)"
  by (simp add: service_metrics_def row_metrics_closed can_expand_def dates_of_def
        start_of_def last_active_of_def active_after_of_def)

lemma build_metrics_total:
  "\<forall>s\<in>set svcs. can_expand pyint cals s \<Longrightarrow>
   \<exists>ms. build_metrics pyint svcs cals cds pivot acc = Inr ms"
  by (induction svcs arbitrary: acc) (simp_all add: service_metrics_closed)

lemma build_metrics_distinct:
  "build_metrics pyint svcs cals cds pivot acc = Inr ms \<Longrightarrow> distinct (map fst acc) \<Longrightarrow>
   distinct (map fst ms)"
  by (induction svcs arbitrary: acc) (auto simp: distinct_update split: sum.splits)

lemma build_metrics_fails:
  "build_metrics pyint svcs cals cds pivot acc = Inl e \<Longrightarrow> e = OverflowError"
  by (induction svcs arbitrary: acc) (auto simp: service_metrics_closed split: sum.splits if_splits)

lemma build_metrics_closed:
  assumes "build_metrics pyint svcs cals cds pivot [] = Inr ms"
  shows "\<forall>s\<in>set svcs. map_of ms s = Some (metrics_for pyint cals cds pivot s)"
    and "fst ` set ms = set svcs" and "distinct (map fst ms)"
    and "\<forall>s\<in>set svcs. can_expand pyint cals s"
proof -
  note e = build_metrics_entries[OF assms]
  from e have ent: "\<forall>s\<in>set svcs. service_metrics pyint s cals cds pivot = Inr (the (map_of ms s))
                \<and> map_of ms s \<noteq> None"
    by (rule conjunct1)
  note keys = e[THEN conjunct2, THEN conjunct2]
  show "\<forall>s\<in>set svcs. map_of ms s = Some (metrics_for pyint cals cds pivot s)"
  proof
    fix s assume "s \<in> set svcs"
    with ent have "service_metrics pyint s cals cds pivot = Inr (the (map_of ms s))"
      and "map_of ms s \<noteq> None" by blast+
    then show "map_of ms s = Some (metrics_for pyint cals cds pivot s)"
      by (auto simp: service_metrics_closed metrics_for_def split: if_splits)
  qed
  show "\<forall>s\<in>set svcs. can_expand pyint cals s"
  proof
    fix s assume "s \<in> set svcs"
    with ent have "service_metrics pyint s cals cds pivot = Inr (the (map_of ms s))" by blast
    then show "can_expand pyint cals s"
      by (auto simp: service_metrics_closed split: if_splits)
  qed
  from keys show "fst ` set ms = set svcs" by simp
  from build_metrics_distinct[OF assms] show "distinct (map fst ms)" by simp
qed

lemma overlap_inner_closed:
  assumes "\<forall>b\<in>set bs. map_of ms b = Some (M b)"
  shows "overlap_inner A ms bs mx =
           Inr (fold max (map (\<lambda>b. card (A \<inter> active_dates (M b))) bs) mx)"
  using assms
proof (induction bs arbitrary: mx)
  case Nil
  show ?case by simp
next
  case (Cons b bs)
  then show ?case
    by (simp add: metric_of_def max_def Let_def)
qed

lemma overlap_outer_closed:
  assumes "\<forall>a\<in>set xs. map_of ms a = Some (M a)"
  shows "overlap_outer ms xs mx =
           Inr (fold max (map (\<lambda>p. card (active_dates (M (fst p)) \<inter> active_dates (M (snd p))))
                  (pairs xs)) mx)"
  using assms
proof (induction xs arbitrary: mx)
  case Nil
  show ?case by simp
next
  case (Cons a xs)
  then show ?case
    by (simp add: metric_of_def overlap_inner_closed[where M = M] comp_def)
qed

lemma max_pairwise_overlap_fold:
  "max_pairwise_overlap D xs = fold max (map (\<lambda>p. card (D (fst p) \<inter> D (snd p))) (pairs xs)) 0"
  unfolding max_pairwise_overlap_def by (simp only: Max.set_eq_fold)

lemma set_pairs:
  "set (pairs xs) = {(xs ! i, xs ! j) | i j. i < j \<and> j < length xs}"
proof (induction xs)
  case Nil
  show ?case by simp
next
  case (Cons x xs)
  have "{((x # xs) ! i, (x # xs) ! j) | i j. i < j \<and> j < length (x # xs)} =
        Pair x ` set xs \<union> {(xs ! i, xs ! j) | i j. i < j \<and> j < length xs}" (is "?L = ?A \<union> ?B")
  proof (intro equalityI subsetI)
    fix p assume "p \<in> ?L"
    then obtain i j where p: "p = ((x # xs) ! i, (x # xs) ! j)" and ij: "i < j" "j < length (x # xs)"
      by blast
    from ij obtain j' where j': "j = Suc j'" "j' < length xs" by (cases j) auto
    show "p \<in> ?A \<union> ?B"
    proof (cases i)
      case 0
      with p j' show ?thesis by simp
    next
      case (Suc i')
      with p j' ij have "p = (xs ! i', xs ! j')" "i' < j'" by simp_all
      with j' show ?thesis by blast
    qed
  next
    fix p assume "p \<in> ?A \<union> ?B"
    then show "p \<in> ?L"
    proof
      assume "p \<in> ?A"
      then obtain y where "y \<in> set xs" "p = (x, y)" by blast
      then obtain k where "k < length xs" "p = ((x # xs) ! 0, (x # xs) ! Suc k)"
        by (auto simp: in_set_conv_nth)
      then show ?thesis by (intro CollectI exI[of _ 0] exI[of _ "Suc k"]) simp
    next
      assume "p \<in> ?B"
      then obtain i j where "p = (xs ! i, xs ! j)" "i < j" "j < length xs" by blast
      then have "p = ((x # xs) ! Suc i, (x # xs) ! Suc j) \<and> Suc i < Suc j \<and> Suc j < length (x # xs)"
        by simp
      then show ?thesis by blast
    qed
  qed
  with Cons show ?case by simp
qed

lemma max_pairwise_overlap_ge:
  assumes "i < j" "j < length xs"
  shows "card (D (xs ! i) \<inter> D (xs ! j)) \<le> max_pairwise_overlap D xs"
proof -
  from assms have "(xs ! i, xs ! j) \<in> set (pairs xs)"
    unfolding set_pairs by blast
  then have "card (D (xs ! i) \<inter> D (xs ! j)) \<in> set (0 # map (\<lambda>p. card (D (fst p) \<inter> D (snd p))) (pairs xs))"
    by force
  then show ?thesis
    unfolding max_pairwise_overlap_def by (intro Max_ge) simp_all
qed

lemma max_pairwise_overlap_attained:
  assumes "2 \<le> length xs"
  shows "\<exists>i j. i < j \<and> j < length xs \<and> max_pairwise_overlap D xs = card (D (xs ! i) \<inter> D (xs ! j))"
proof -
  let ?S = "set (0 # map (\<lambda>p. card (D (fst p) \<inter> D (snd p))) (pairs xs))"
  have "Max ?S \<in> ?S" by (intro Max_in) simp_all
  then consider "max_pairwise_overlap D xs = 0"
    | p where "p \<in> set (pairs xs)" "max_pairwise_overlap D xs = card (D (fst p) \<inter> D (snd p))"
    unfolding max_pairwise_overlap_def by auto
  then show ?thesis
  proof cases
    case 1
    from assms have "(0::nat) < 1 \<and> 1 < length xs" by simp
    moreover have "card (D (xs ! 0) \<inter> D (xs ! 1)) \<le> max_pairwise_overlap D xs"
      using assms by (intro max_pairwise_overlap_ge) simp_all
    ultimately show ?thesis using 1 by (intro exI[of _ 0] exI[of _ 1]) simp
  next
    case 2
    from 2(1) obtain i j where "p = (xs ! i, xs ! j)" "i < j" "j < length xs"
      unfolding set_pairs by blast
    with 2(2) show ?thesis by (intro exI[of _ i] exI[of _ j]) simp
  qed
qed

lemma resolver_overlap_step:
  assumes "build_metrics pyint services calendars calendar_dates pivot [] = Inr ms"
  shows "overlap_outer ms services 0 =
           Inr (max_pairwise_overlap (dates_of pyint calendars calendar_dates) services)"
proof -
  have "overlap_outer ms services 0 =
          Inr (fold max (map (\<lambda>p. card
                 (active_dates (metrics_for pyint calendars calendar_dates pivot (fst p)) \<inter>
                  active_dates (metrics_for pyint calendars calendar_dates pivot (snd p))))
               (pairs services)) 0)"
    by (rule overlap_outer_closed) (rule build_metrics_closed(1)[OF assms])
  then show ?thesis
    by (simp add: max_pairwise_overlap_fold metrics_for_def)
qed

text \<open>
  Claim C2, as amended. For a group of two or more services none of whose calendars has a
  non-empty date range that ends on 9999-12-31: if the largest number of shared active
  dates over all pairs of candidates (the second after the first in the list) exceeds the
  threshold, the resolver returns no winner, the ambiguity flag set and exactly one
  reason, which records the overlap and the threshold; no stage of the elimination chain
  has added a reason. The largest overlap is attained by some pair and bounds every pair.
\<close>

theorem overlap_ambiguity:
  assumes "2 \<le> length services"
    and "\<forall>s\<in>set services. can_expand pyint calendars s"
    and "overlap_max_days <
           int (max_pairwise_overlap (dates_of pyint calendars calendar_dates) services)"
  shows "choose_service_winner_factual pyint services calendars calendar_dates pivot
           overlap_max_days =
         Inr (None,
              [ambiguous_reason
                 (max_pairwise_overlap (dates_of pyint calendars calendar_dates) services)
                 overlap_max_days],
              True)
         \<and> (\<exists>i j. i < j \<and> j < length services \<and>
               max_pairwise_overlap (dates_of pyint calendars calendar_dates) services =
                 card (dates_of pyint calendars calendar_dates (services ! i) \<inter>
                       dates_of pyint calendars calendar_dates (services ! j)))
         \<and> (\<forall>i j. i < j \<and> j < length services \<longrightarrow>
               card (dates_of pyint calendars calendar_dates (services ! i) \<inter>
                     dates_of pyint calendars calendar_dates (services ! j))
               \<le> max_pairwise_overlap (dates_of pyint calendars calendar_dates) services)"
proof -
  from build_metrics_total[OF assms(2)] obtain ms where
    ms: "build_metrics pyint services calendars calendar_dates pivot [] = Inr ms" by blast
  have "choose_service_winner_factual pyint services calendars calendar_dates pivot
           overlap_max_days =
         Inr (None,
              [ambiguous_reason
                 (max_pairwise_overlap (dates_of pyint calendars calendar_dates) services)
                 overlap_max_days],
              True)"
    using assms(1,3)
    by (simp add: choose_service_winner_factual_def ms resolver_overlap_step[OF ms]
          ambiguous_reason_def)
  moreover note max_pairwise_overlap_attained[OF assms(1)]
  moreover have "\<forall>i j. i < j \<and> j < length services \<longrightarrow>
               card (dates_of pyint calendars calendar_dates (services ! i) \<inter>
                     dates_of pyint calendars calendar_dates (services ! j))
               \<le> max_pairwise_overlap (dates_of pyint calendars calendar_dates) services"
    using max_pairwise_overlap_ge by blast
  ultimately show ?thesis by (intro conjI)
qed

lemma ex_can_expand: "\<forall>s\<in>set [''100'', ''101'']. can_expand dec_int ex_calendars s"
  by code_simp

lemma ex_overlap: "max_pairwise_overlap (dates_of dec_int ex_calendars []) [''100'', ''101''] = 3"
  by code_simp

lemma ex_ambiguous_reason: "ambiguous_reason 3 2 = ''Ambiguous: services overlap by 3 days (> 2)''"
  by code_simp

theorem overlap_ambiguity_witness:
  "choose_service_winner_factual dec_int [''100'', ''101''] ex_calendars [] 738886 2 =
     Inr (None, [''Ambiguous: services overlap by 3 days (> 2)''], True)"
proof -
  have h1: "2 \<le> length [''100'', ''101'']" by simp
  have h3: "2 < int (max_pairwise_overlap (dates_of dec_int ex_calendars []) [''100'', ''101''])"
    by (simp add: ex_overlap)
  from overlap_ambiguity[OF h1 ex_can_expand h3, of 738886]
  show ?thesis
    by (simp only: ex_overlap ex_ambiguous_reason)
qed

lemma ex_last_day_overlap:
  "max_pairwise_overlap (dates_of dec_int ex_last_day []) [''A'', ''B''] = 1"
  by code_simp

lemma ex_last_day_expand: "can_expand dec_int ex_last_day ''A'' = False"
  by code_simp

text \<open>
  The claim as stated fails where the expansion of a calendar overflows: two services that
  both run on 9999-12-31 share one date, more than a threshold of 0, and the resolver
  raises \<open>OverflowError\<close> instead of declaring the group ambiguous.
\<close>

theorem overlap_ambiguity_overflow:
  "0 < int (max_pairwise_overlap (dates_of dec_int ex_last_day []) [''A'', ''B'']) \<and>
   choose_service_winner_factual dec_int [''A'', ''B''] ex_last_day [] 738886 0 =
     Inl OverflowError"
  by (simp add: ex_last_day_overlap choose_service_winner_factual_def service_metrics_closed
        ex_last_day_expand)

subsection \<open>The resolver: the elimination chain\<close>

lemma keep_highest_Max:
  assumes "xs \<noteq> []"
  shows "keep_highest f xs = filter (\<lambda>s. f s = Max (f ` set xs)) xs"
proof -
  have "\<And>s. s \<in> set xs \<Longrightarrow> (\<forall>t\<in>set xs. f t \<le> f s) = (f s = Max (f ` set xs))"
  proof -
    fix s assume s: "s \<in> set xs"
    show "(\<forall>t\<in>set xs. f t \<le> f s) = (f s = Max (f ` set xs))"
    proof
      assume "\<forall>t\<in>set xs. f t \<le> f s"
      with s have "Max (f ` set xs) = f s" by (intro Max_eqI) auto
      then show "f s = Max (f ` set xs)" by simp
    next
      assume "f s = Max (f ` set xs)"
      then show "\<forall>t\<in>set xs. f t \<le> f s" by simp
    qed
  qed
  then show ?thesis
    unfolding keep_highest_def by (intro filter_cong) auto
qed

lemma keep_highest_nonempty:
  assumes "xs \<noteq> []"
  shows "keep_highest f xs \<noteq> []"
proof -
  from assms have "Max (f ` set xs) \<in> f ` set xs" by (intro Max_in) auto
  then obtain s where "s \<in> set xs" "f s = Max (f ` set xs)" by auto
  then show ?thesis
    unfolding keep_highest_Max[OF assms] by (auto simp: filter_empty_conv)
qed

lemma keep_highest_subset: "set (keep_highest f xs) \<subseteq> set xs"
  by (simp add: keep_highest_def)

lemma keep_highest_length: "length (keep_highest f xs) \<le> length xs"
  by (simp add: keep_highest_def)

lemma keep_highest_single: "keep_highest f [w] = [w]"
  by (simp add: keep_highest_def)

lemma keep_highest_top:
  assumes "s \<in> set (keep_highest f xs)"
  shows "f s = Max (f ` set xs)"
proof -
  from assms have "xs \<noteq> []" by (auto simp: keep_highest_def)
  from assms show ?thesis unfolding keep_highest_Max[OF \<open>xs \<noteq> []\<close>] by simp
qed

lemma option_Max:
  fixes X :: "'a::linorder option set"
  assumes "finite X" "X \<noteq> {}"
  shows "Max X = (if \<forall>x\<in>X. x = None then None else Some (Max {d. Some d \<in> X}))"
proof (cases "\<forall>x\<in>X. x = None")
  case True
  with assms have "X = {None}" by auto
  with True show ?thesis by simp
next
  case False
  let ?D = "{d. Some d \<in> X}"
  have "?D = Some -` X" by auto
  then have fin: "finite ?D" using assms(1) by (simp add: finite_vimageI)
  from False obtain x where "x \<in> X" "x \<noteq> None" by blast
  then obtain d where "Some d \<in> X" by (cases x) simp_all
  then have ne: "?D \<noteq> {}" by blast
  from Max_in[OF fin ne] have top: "Some (Max ?D) \<in> X" by simp
  have "\<And>x. x \<in> X \<Longrightarrow> x \<le> Some (Max ?D)"
  proof -
    fix x assume x: "x \<in> X"
    show "x \<le> Some (Max ?D)"
    proof (cases x)
      case None
      then show ?thesis by simp
    next
      case (Some d)
      with x have "d \<in> ?D" by simp
      then have "d \<le> Max ?D" using fin by simp
      with Some show ?thesis by simp
    qed
  qed
  with top assms(1) have "Max X = Some (Max ?D)" by (intro Max_eqI)
  with False show ?thesis by simp
qed

lemma set_map_filter_conv:
  "set (List.map_filter f xs) = {y. \<exists>x\<in>set xs. f x = Some y}"
  by (induction xs) (auto simp: List.map_filter_simps split: option.splits)

lemma max_opt_set:
  assumes "xs \<noteq> []" and "set ys = {d. \<exists>x\<in>set xs. f x = Some d}"
  shows "max_opt ys = Max (f ` set xs)"
proof -
  have "\<And>d. (Some d \<in> f ` set xs) = (\<exists>x\<in>set xs. f x = Some d)"
  proof
    fix d assume "Some d \<in> f ` set xs"
    then obtain x where "x \<in> set xs" "Some d = f x" by (rule imageE)
    then have "x \<in> set xs \<and> f x = Some d" by simp
    then show "\<exists>x\<in>set xs. f x = Some d" by blast
  next
    fix d assume "\<exists>x\<in>set xs. f x = Some d"
    then obtain x where "x \<in> set xs" "f x = Some d" by blast
    then have "f x \<in> f ` set xs" by (intro imageI)
    with \<open>f x = Some d\<close> show "Some d \<in> f ` set xs" by simp
  qed
  then have D: "{d. Some d \<in> f ` set xs} = set ys"
    using assms(2) by simp
  have "Max (f ` set xs) = (if \<forall>x\<in>f ` set xs. x = None then None else Some (Max (set ys)))"
    using assms(1) by (subst option_Max) (simp_all add: D)
  moreover have "(\<forall>x\<in>f ` set xs. x = None) = (ys = [])"
  proof
    assume "\<forall>x\<in>f ` set xs. x = None"
    then have "set ys = {}" unfolding assms(2) by auto
    then show "ys = []" by simp
  next
    assume "ys = []"
    then have "{d. \<exists>x\<in>set xs. f x = Some d} = {}" using assms(2) by simp
    then have no: "\<And>x d. x \<in> set xs \<Longrightarrow> f x \<noteq> Some d" by blast
    show "\<forall>x\<in>f ` set xs. x = None"
    proof
      fix y assume "y \<in> f ` set xs"
      then obtain x where x: "x \<in> set xs" "y = f x" by (rule imageE)
      show "y = None"
      proof (cases y)
        case None
        then show ?thesis .
      next
        case (Some a)
        with x(2) have "f x = Some a" by simp
        with no[OF x(1), of a] show ?thesis by simp
      qed
    qed
  qed
  ultimately show ?thesis by (simp add: max_opt_def)
qed

lemma keep_equal_closed:
  assumes "\<forall>s\<in>set cands. map_of ms s = Some (M s)"
  shows "keep_equal ms field v cands = Inr (filter (\<lambda>s. field (M s) = v) cands)"
  using assms by (induction cands) (simp_all add: keep_equal_def metric_of_def)

lemma map_e_metric_closed:
  assumes "\<forall>s\<in>set cands. map_of ms s = Some (M s)"
  shows "map_e (metric_of ms field) cands = Inr (map (\<lambda>s. field (M s)) cands)"
  using assms by (induction cands) (simp_all add: metric_of_def)

lemma stage_single:
  "(case c of [] \<Rightarrow> F [] | w # ws \<Rightarrow> (case ws of [] \<Rightarrow> G w | y # ys \<Rightarrow> F (w # y # ys))) =
     (if length c = 1 then G (hd c) else F c)"
  by (auto split: list.splits)

lemma by_last_active_closed:
  assumes ent: "\<forall>s\<in>set services. map_of ms s = Some (M s)"
    and MS: "set ms = (\<lambda>s. (s, M s)) ` set services"
    and ne: "services \<noteq> []"
    and L: "L = Max ((\<lambda>s. last_active_date (M s)) ` set services)"
    and c1: "c1 = keep_highest (\<lambda>s. last_active_date (M s)) services"
  shows "by_last_active ms services reasons =
     Inr (if L \<noteq> None \<and> length c1 = 1
          then Return (hd c1) (reasons @ [reason_latest_last (the L)])
          else Continue c1 (if L \<noteq> None then reasons @ [reason_tied_last (the L)] else reasons))"
proof -
  let ?la = "\<lambda>s. last_active_date (M s)"
  have "set (List.map_filter (\<lambda>km. last_active_date (snd km)) ms) =
          {d. \<exists>s\<in>set services. ?la s = Some d}"
    unfolding set_map_filter_conv MS by auto
  from max_opt_set[OF ne this]
  have mo: "max_opt (List.map_filter (\<lambda>km. last_active_date (snd km)) ms) = L"
    unfolding L .
  show ?thesis
  proof (cases L)
    case None
    have "\<And>s. s \<in> set services \<Longrightarrow> ?la s = None"
    proof -
      fix s assume "s \<in> set services"
      then have "?la s \<le> Max (?la ` set services)" by simp
      with None L show "?la s = None" by (cases "?la s") simp_all
    qed
    then have "c1 = services"
      unfolding c1 keep_highest_Max[OF ne] using None L by (simp add: filter_id_conv)
    with None mo ne show ?thesis
      by (simp add: by_last_active_def)
  next
    case (Some l)
    have "keep_equal ms last_active_date (Some l) services = Inr c1"
      unfolding c1 keep_highest_Max[OF ne] using Some L
      by (simp add: keep_equal_closed[OF ent])
    with Some mo show ?thesis
      by (simp add: by_last_active_def reason_latest_last_def reason_tied_last_def
            split: list.splits)
  qed
qed


lemma by_active_after_pivot_closed:
  assumes ent: "\<forall>s\<in>set cands. map_of ms s = Some (M s)"
    and ne: "cands \<noteq> []"
    and A: "A = Max ((\<lambda>s. active_after_pivot (M s)) ` set cands)"
    and c2: "c2 = keep_highest (\<lambda>s. active_after_pivot (M s)) cands"
  shows "by_active_after_pivot ms cands reasons =
     Inr (if length c2 = 1 then Return (hd c2) (reasons @ [reason_most_after A])
          else Continue c2 (if 0 < A then reasons @ [reason_tied_after A] else reasons))"
proof -
  have mx: "Max (set (map (\<lambda>s. active_after_pivot (M s)) cands)) = A"
    unfolding A by simp
  have ke: "keep_equal ms active_after_pivot A cands = Inr c2"
    unfolding c2 keep_highest_Max[OF ne] A
    by (simp add: keep_equal_closed[OF ent])
  have "by_active_after_pivot ms cands reasons =
          (case c2 of
             [] \<Rightarrow> Inr (Continue c2 (if 0 < A then reasons @ [reason_tied_after A] else reasons))
           | w # ws \<Rightarrow>
               (case ws of
                  [] \<Rightarrow> Inr (Return w (reasons @ [reason_most_after A]))
                | y # ys \<Rightarrow>
                    Inr (Continue c2 (if 0 < A then reasons @ [reason_tied_after A] else reasons))))"
    unfolding by_active_after_pivot_def map_e_metric_closed[OF ent] sum.case Let_def mx ke
      reason_most_after_def reason_tied_after_def
    using ne by (simp split: list.splits)
  then show ?thesis
    by (simp split: list.splits)
qed

lemma by_start_date_closed:
  assumes ent: "\<forall>s\<in>set cands. map_of ms s = Some (M s)"
    and ne: "cands \<noteq> []"
    and S: "S = Max ((\<lambda>s. start_date (M s)) ` set cands)"
    and c3: "c3 = keep_highest (\<lambda>s. start_date (M s)) cands"
  shows "by_start_date ms cands reasons =
     Inr (if S \<noteq> None \<and> length c3 = 1
          then Return (hd c3) (reasons @ [reason_latest_start (the S)])
          else Continue c3 (if S \<noteq> None then reasons @ [reason_tied_start (the S)] else reasons))"
proof -
  let ?sd = "\<lambda>s. start_date (M s)"
  have "set (List.map_filter id (map ?sd cands)) = {d. \<exists>s\<in>set cands. ?sd s = Some d}"
    unfolding set_map_filter_conv by (simp add: image_iff) metis
  from max_opt_set[OF ne this]
  have mo: "max_opt (List.map_filter id (map ?sd cands)) = S"
    unfolding S .
  show ?thesis
  proof (cases S)
    case None
    have "\<And>s. s \<in> set cands \<Longrightarrow> ?sd s = None"
    proof -
      fix s assume "s \<in> set cands"
      then have "?sd s \<le> Max (?sd ` set cands)" by simp
      with None S show "?sd s = None" by (cases "?sd s") simp_all
    qed
    then have "c3 = cands"
      unfolding c3 keep_highest_Max[OF ne] using None S by (simp add: filter_id_conv)
    with None mo ne show ?thesis
      by (simp add: by_start_date_def map_e_metric_closed[OF ent])
  next
    case (Some l)
    have "keep_equal ms start_date (Some l) cands = Inr c3"
      unfolding c3 keep_highest_Max[OF ne] using Some S
      by (simp add: keep_equal_closed[OF ent])
    with Some mo show ?thesis
      by (simp add: by_start_date_def map_e_metric_closed[OF ent] reason_latest_start_def
            reason_tied_start_def split: list.splits)
  qed
qed


lemma those_map:
  "those (map f xs) =
     (if list_all (\<lambda>x. f x \<noteq> None) xs then Some (map (\<lambda>x. the (f x)) xs) else None)"
  by (induction xs) (auto split: option.splits)

lemma sorted_le_last:
  fixes ys :: "'a::linorder list"
  shows "sorted ys \<Longrightarrow> y \<in> set ys \<Longrightarrow> y \<le> last ys"
  by (induction ys) auto

lemma rev_sort_Max:
  fixes xs :: "'a::linorder list"
  assumes "xs \<noteq> []"
  shows "rev (sort xs) = Max (set xs) # tl (rev (sort xs))"
proof -
  from assms have ne: "sort xs \<noteq> []"
    by (metis set_empty2 set_sort)
  have "\<And>y. y \<in> set xs \<Longrightarrow> y \<le> last (sort xs)"
    using sorted_le_last[of "sort xs"] by simp
  moreover have "last (sort xs) \<in> set xs"
    using last_in_set[OF ne] by simp
  ultimately have "Max (set xs) = last (sort xs)"
    by (intro Max_eqI) simp_all
  then have "hd (rev (sort xs)) = Max (set xs)"
    by (simp add: hd_rev)
  moreover from ne have "rev (sort xs) \<noteq> []" by simp
  ultimately show ?thesis
    by (metis list.collapse)
qed

lemma by_service_id_closed:
  assumes "cands \<noteq> []"
  shows "by_service_id pyint cands reasons =
           Inr (final_pick pyint cands, reasons @ [final_reason pyint cands])"
proof (cases "all_parse pyint cands")
  case True
  let ?ps = "map (\<lambda>s. (the (pyint s), s)) cands"
  have z: "zip (map (\<lambda>x. the (pyint x)) cands) cands = ?ps"
    by (induction cands) simp_all
  from assms have "?ps \<noteq> []" by simp
  from rev_sort_Max[OF this]
  have r: "rev (sort ?ps) = Max ((\<lambda>s. (the (pyint s), s)) ` set cands) # tl (rev (sort ?ps))"
    by simp
  have t: "those (map pyint cands) = Some (map (\<lambda>x. the (pyint x)) cands)"
    using True by (simp add: those_map all_parse_def)
  show ?thesis
    unfolding by_service_id_def t option.case z
    by (subst r) (simp add: final_pick_def final_reason_def True)
next
  case False
  have t: "those (map pyint cands) = None"
    using False by (simp add: those_map all_parse_def)
  note r = rev_sort_Max[OF assms]
  show ?thesis
    unfolding by_service_id_def t option.case
    by (subst r) (simp add: final_pick_def final_reason_def False)
qed


lemma elimination_chain_closed:
  assumes ent: "\<forall>s\<in>set services. map_of ms s = Some (M s)"
    and MS: "set ms = (\<lambda>s. (s, M s)) ` set services"
    and ne: "services \<noteq> []"
  shows "elimination_chain pyint ms services =
     Inr (Some (fst (chain_outcome pyint (\<lambda>s. last_active_date (M s))
                       (\<lambda>s. active_after_pivot (M s)) (\<lambda>s. start_date (M s)) services)),
          snd (chain_outcome pyint (\<lambda>s. last_active_date (M s))
                 (\<lambda>s. active_after_pivot (M s)) (\<lambda>s. start_date (M s)) services),
          False)"
proof -
  let ?la = "\<lambda>s. last_active_date (M s)"
  let ?ap = "\<lambda>s. active_after_pivot (M s)"
  let ?sd = "\<lambda>s. start_date (M s)"
  let ?L = "Max (?la ` set services)"
  let ?c1 = "keep_highest ?la services"
  let ?r1 = "if ?L \<noteq> None then [reason_tied_last (the ?L)] else []"
  let ?A = "Max (?ap ` set ?c1)"
  let ?c2 = "keep_highest ?ap ?c1"
  let ?r2 = "?r1 @ (if 0 < ?A then [reason_tied_after ?A] else [])"
  let ?S = "Max (?sd ` set ?c2)"
  let ?c3 = "keep_highest ?sd ?c2"
  have ne1: "?c1 \<noteq> []" by (rule keep_highest_nonempty[OF ne])
  have ne2: "?c2 \<noteq> []" by (rule keep_highest_nonempty[OF ne1])
  have ne3: "?c3 \<noteq> []" by (rule keep_highest_nonempty[OF ne2])
  have ent1: "\<forall>s\<in>set ?c1. map_of ms s = Some (M s)"
    using ent keep_highest_subset[of ?la services] by blast
  have ent2: "\<forall>s\<in>set ?c2. map_of ms s = Some (M s)"
    using ent1 keep_highest_subset[of ?ap ?c1] by blast
  have s1: "by_last_active ms services [] =
     Inr (if ?L \<noteq> None \<and> length ?c1 = 1
          then Return (hd ?c1) [reason_latest_last (the ?L)]
          else Continue ?c1 ?r1)"
    using by_last_active_closed[OF ent MS ne refl refl, of "[]"] by simp
  have s2: "by_active_after_pivot ms ?c1 r =
     Inr (if length ?c2 = 1 then Return (hd ?c2) (r @ [reason_most_after ?A])
          else Continue ?c2 (r @ (if 0 < ?A then [reason_tied_after ?A] else [])))" for r
    using by_active_after_pivot_closed[OF ent1 ne1 refl refl, of r] by simp
  have s3: "by_start_date ms ?c2 r =
     Inr (if ?S \<noteq> None \<and> length ?c3 = 1
          then Return (hd ?c3) (r @ [reason_latest_start (the ?S)])
          else Continue ?c3 (r @ (if ?S \<noteq> None then [reason_tied_start (the ?S)] else [])))" for r
    using by_start_date_closed[OF ent2 ne2 refl refl, of r] by simp
  have s4: "by_service_id pyint ?c3 rs = Inr (final_pick pyint ?c3, rs @ [final_reason pyint ?c3])"
    for rs
    by (rule by_service_id_closed[OF ne3])
  show ?thesis
  proof (cases "?L \<noteq> None \<and> length ?c1 = 1")
    case True
    then show ?thesis
      unfolding elimination_chain_def s1 chain_outcome_def Let_def by simp
  next
    case n1: False
    show ?thesis
    proof (cases "length ?c2 = 1")
      case True
      with n1 show ?thesis
        unfolding elimination_chain_def s1 chain_outcome_def Let_def
        by (simp add: s2)
    next
      case n2: False
      show ?thesis
      proof (cases "?S \<noteq> None \<and> length ?c3 = 1")
        case True
        with n1 n2 show ?thesis
          unfolding elimination_chain_def s1 chain_outcome_def Let_def
          by (simp add: s2 s3)
      next
        case n3: False
        with n1 n2 show ?thesis
          unfolding elimination_chain_def s1 chain_outcome_def Let_def
          by (simp add: s2 s3 s4)
      qed
    qed
  qed
qed


lemma keep_highest_all:
  assumes "\<forall>s\<in>set xs. f s = Max (f ` set xs)"
  shows "keep_highest f xs = xs"
proof (cases "xs = []")
  case True
  then show ?thesis by (simp add: keep_highest_def)
next
  case False
  show ?thesis
    unfolding keep_highest_Max[OF False] using assms by (simp add: filter_id_conv)
qed

lemma keep_highest_None:
  fixes f :: "'a \<Rightarrow> 'b::linorder option"
  assumes "Max (f ` set xs) = None"
  shows "keep_highest f xs = xs"
proof (rule keep_highest_all, rule ballI)
  fix s assume "s \<in> set xs"
  then have "f s \<le> Max (f ` set xs)" by simp
  with assms show "f s = Max (f ` set xs)" by (cases "f s") simp_all
qed

lemma keep_highest_zero:
  fixes f :: "'a \<Rightarrow> nat"
  assumes "Max (f ` set xs) = 0"
  shows "keep_highest f xs = xs"
proof (rule keep_highest_all, rule ballI)
  fix s assume "s \<in> set xs"
  then have "f s \<le> Max (f ` set xs)" by simp
  with assms show "f s = Max (f ` set xs)" by simp
qed

lemma final_pick_single: "final_pick pyint [w] = w"
  by (simp add: final_pick_def)

lemma final_pick_in:
  assumes "xs \<noteq> []"
  shows "final_pick pyint xs \<in> set xs"
proof (cases "all_parse pyint xs")
  case True
  have "Max ((\<lambda>s. (the (pyint s), s)) ` set xs) \<in> (\<lambda>s. (the (pyint s), s)) ` set xs"
    using assms by (intro Max_in) simp_all
  then have "snd (Max ((\<lambda>s. (the (pyint s), s)) ` set xs)) \<in> set xs"
    by auto
  with True show ?thesis by (simp add: final_pick_def)
next
  case False
  have "Max (set xs) \<in> set xs"
    using assms by (intro Max_in) simp_all
  with False show ?thesis by (simp add: final_pick_def)
qed

lemma final_pick_numeric:
  assumes "all_parse pyint xs" and "s \<in> set xs"
  shows "the (pyint s) \<le> the (pyint (final_pick pyint xs))"
proof -
  let ?P = "(\<lambda>s. (the (pyint s), s)) ` set xs"
  from assms(2) have ne: "?P \<noteq> {}" by auto
  have "Max ?P \<in> ?P" using ne by (intro Max_in) simp_all
  then obtain t where t: "t \<in> set xs" "Max ?P = (the (pyint t), t)" by auto
  from assms(2) have "(the (pyint s), s) \<le> Max ?P" by (intro Max_ge) simp_all
  with t have "(the (pyint s), s) \<le> (the (pyint t), t)" by simp
  then have "the (pyint s) \<le> the (pyint t)"
    by (auto simp: less_eq_prod_def)
  with t assms(1) show ?thesis by (simp add: final_pick_def)
qed

lemma final_pick_lexicographic:
  assumes "\<not> all_parse pyint xs" and "s \<in> set xs"
  shows "s \<le> final_pick pyint xs"
  using assms by (simp add: final_pick_def)


lemma build_metrics_set:
  assumes "build_metrics pyint svcs cals cds pivot [] = Inr ms"
  shows "set ms = (\<lambda>s. (s, metrics_for pyint cals cds pivot s)) ` set svcs"
proof -
  note c = build_metrics_closed[OF assms]
  show ?thesis
  proof (intro set_eqI iffI)
    fix p assume p: "p \<in> set ms"
    obtain k v where kv: "p = (k, v)" by (cases p)
    from p kv have "k \<in> fst ` set ms" by force
    with c(2) have k: "k \<in> set svcs" by simp
    from p kv c(3) have "map_of ms k = Some v" by simp
    with c(1) k have "v = metrics_for pyint cals cds pivot k" by simp
    with kv k show "p \<in> (\<lambda>s. (s, metrics_for pyint cals cds pivot s)) ` set svcs" by simp
  next
    fix p assume "p \<in> (\<lambda>s. (s, metrics_for pyint cals cds pivot s)) ` set svcs"
    then obtain s where s: "s \<in> set svcs" "p = (s, metrics_for pyint cals cds pivot s)" by auto
    with c(1) have "map_of ms s = Some (metrics_for pyint cals cds pivot s)" by simp
    then have "(s, metrics_for pyint cals cds pivot s) \<in> set ms" by (rule map_of_SomeD)
    with s show "p \<in> set ms" by simp
  qed
qed

lemma resolver_chain_closed:
  assumes "2 \<le> length services"
    and "\<forall>s\<in>set services. can_expand pyint calendars s"
    and "int (max_pairwise_overlap (dates_of pyint calendars calendar_dates) services)
           \<le> overlap_max_days"
  shows "choose_service_winner_factual pyint services calendars calendar_dates pivot
           overlap_max_days =
     Inr (Some (fst (chain_outcome pyint (last_active_of pyint calendars calendar_dates)
                       (active_after_of pyint calendars calendar_dates pivot)
                       (start_of pyint calendars) services)),
          snd (chain_outcome pyint (last_active_of pyint calendars calendar_dates)
                 (active_after_of pyint calendars calendar_dates pivot)
                 (start_of pyint calendars) services),
          False)"
proof -
  from build_metrics_total[OF assms(2)] obtain ms where
    ms: "build_metrics pyint services calendars calendar_dates pivot [] = Inr ms" by blast
  from assms(1) have ne: "services \<noteq> []" by auto
  let ?M = "metrics_for pyint calendars calendar_dates pivot"
  have la: "(\<lambda>s. last_active_date (?M s)) = last_active_of pyint calendars calendar_dates"
    and ap: "(\<lambda>s. active_after_pivot (?M s)) = active_after_of pyint calendars calendar_dates pivot"
    and sd: "(\<lambda>s. start_date (?M s)) = start_of pyint calendars"
    by (simp_all add: metrics_for_def)
  have "choose_service_winner_factual pyint services calendars calendar_dates pivot
           overlap_max_days = elimination_chain pyint ms services"
    using assms(1,3)
    by (simp add: choose_service_winner_factual_def ms resolver_overlap_step[OF ms])
  also note elimination_chain_closed[OF build_metrics_closed(1)[OF ms] build_metrics_set[OF ms] ne,
      of pyint]
  finally show ?thesis
    unfolding la ap sd .
qed

end
